theory Spec2Isabelle
  imports Main "HOL-Library.Word" "HOL-Library.Multiset"
begin

unbundle bit_operations_syntax

section \<open>Bytes, sizes and the regex library\<close>

text \<open>
  The engine works on \<open>unsigned char\<close> buffers. A byte is an 8-bit word, a buffer a
  list of bytes. Offsets and lengths (\<open>size_t\<close>) are natural numbers; where the code
  adds a signed region index to a \<open>size_t\<close> the wrap-around at \<open>2 ^ 64\<close> is written
  out (\<open>size_add\<close>).
\<close>

type_synonym byte = "8 word"

definition SIZE_MAX :: nat where
  "SIZE_MAX = 2 ^ 64 - 1"

definition INT_MAX :: nat where
  "INT_MAX = 2 ^ 31 - 1"

definition size_add :: "nat \<Rightarrow> int \<Rightarrow> nat" where
  "size_add a b = nat ((int a + b) mod 2 ^ 64)"

text \<open>
  The code hands positions to the library as pointers, \<open>r->bytes + offset\<close>, next to
  the pointer \<open>r->bytes + line->begin\<close> to the start of the subject. The model hands
  over the signed distance between the two, of pointers 64 bits wide: it is negative
  when the pointer lies before the subject, which happens when \<open>offset\<close> was computed
  from a region index of \<open>-1\<close>.
\<close>

definition ptr_diff :: "nat \<Rightarrow> nat \<Rightarrow> int" where
  "ptr_diff a b =
     (let d = (int a - int b) mod 2 ^ 64 in if d < 2 ^ 63 then d else d - 2 ^ 64)"

definition is_digit :: "byte \<Rightarrow> bool" where
  "is_digit c \<longleftrightarrow> 48 \<le> c \<and> c \<le> 57"

text \<open>
  An \<open>OnigRegion\<close>: one \<open>(beg, end)\<close> pair per capture group, relative to the start
  of the subject; \<open>beg < 0\<close> marks a group that did not take part in the match.
\<close>

type_synonym region = "(int \<times> int) list"

text \<open>
  A compiled regex (\<open>OnigRegex\<close>) is identified with the source bytes it was compiled
  from. The Oniguruma library itself is not part of the repository; every function of
  it that the code calls is a field of the record \<open>onig\<close>, which the functions below
  take as their first argument.
  \<^item> \<open>onig_new\<close>: compile; \<open>None\<close> on a compile error, otherwise the value of
    \<open>onig_number_of_captures\<close>.
  \<^item> \<open>onig_match\<close>: match anchored at one position of the subject; \<open>True\<close> when the
    returned length is \<open>\<ge> 0\<close>.
  \<^item> \<open>onig_search\<close>: regex, subject \<open>[str, end)\<close>, start and range as signed distances
    from \<open>str\<close>, the flag \<open>ONIG_OPTION_NOT_BEGIN_POSITION\<close>; \<open>None\<close> when the result is negative,
    otherwise the region written by the search.
  \<^item> \<open>onig_name_to_group_numbers\<close>: \<open>None\<close> when the result is negative.
  \<^item> \<open>onig_regset_search\<close> and \<open>onig_regset_get_region\<close> work on the regions a regset
    owns. These regions are mutable state of the library, of type \<open>'e\<close>: a search
    returns the new state and, on success, the index of the winning regex and the
    match position.
\<close>

record 'e onig =
  onig_new :: "byte list \<Rightarrow> nat option"
  onig_match :: "byte list \<Rightarrow> byte list \<Rightarrow> nat \<Rightarrow> bool"
  onig_search :: "byte list \<Rightarrow> byte list \<Rightarrow> int \<Rightarrow> int \<Rightarrow> bool \<Rightarrow> region option"
  onig_name_to_group_numbers :: "byte list \<Rightarrow> byte list \<Rightarrow> nat list option"
  onig_regset_search ::
    "'e \<Rightarrow> nat \<Rightarrow> byte list list \<Rightarrow> byte list \<Rightarrow> int \<Rightarrow> int \<Rightarrow> bool \<Rightarrow> 'e \<times> (nat \<times> int) option"
  onig_regset_get_region :: "'e \<Rightarrow> nat \<Rightarrow> nat \<Rightarrow> region"

section \<open>Patterns\<close>

text \<open>
  \<open>struct pattern\<close>. States are referred to by handle (a natural number); a null
  pointer is \<open>None\<close>. \<open>p_text\<close> is \<open>None\<close> for the null pointer \<open>calloc\<close> leaves.
\<close>

record pattern =
  p_re :: "byte list"
  p_innerScope :: int
  p_outerScope :: int
  p_captures :: int
  p_captureScopes :: "int list"
  p_captureStates :: "nat option list"
  p_backreferencingPattern :: bool
  p_text :: "byte list option"
  p_len :: nat

definition createPattern :: "'e onig \<Rightarrow> byte list \<Rightarrow> pattern option" where
  "createPattern lib regex =
     (case onig_new lib regex of
        None \<Rightarrow> None
      | Some n \<Rightarrow>
          Some \<lparr> p_re = regex, p_innerScope = 0, p_outerScope = 0,
                 p_captures = int n + 1,
                 p_captureScopes = replicate (n + 1) 0,
                 p_captureStates = replicate (n + 1) None,
                 p_backreferencingPattern = False,
                 p_text = None, p_len = 0 \<rparr>)"

text \<open>
  The loop of \<open>createBackreferencingPattern\<close> over \<open>i\<close> with \<open>i + 1 < len\<close>: the
  working copy and the flag.
\<close>

definition takeOutStep :: "nat \<Rightarrow> byte list \<times> bool \<Rightarrow> byte list \<times> bool" where
  "takeOutStep i tf =
     (case tf of (t, f) \<Rightarrow>
        if t ! i = 92 \<and> (t ! (i + 1) \<ge> 48 \<and> t ! (i + 1) \<le> 57)
        then (t[i := 48], True) else (t, f))"

definition takeOutBackreferences :: "byte list \<Rightarrow> byte list \<times> bool" where
  "takeOutBackreferences regex =
     fold takeOutStep [0 ..< length regex - 1] (regex, False)"

definition createBackreferencingPattern :: "'e onig \<Rightarrow> byte list \<Rightarrow> pattern option" where
  "createBackreferencingPattern lib regex =
     (case takeOutBackreferences regex of (t, backreferencing) \<Rightarrow>
        (case createPattern lib t of
           None \<Rightarrow> None
         | Some p \<Rightarrow>
             if \<not> backreferencing then Some p
             else Some (p\<lparr> p_backreferencingPattern := backreferencing,
                           p_text := Some regex, p_len := length regex \<rparr>)))"

definition setInnerScope :: "pattern \<Rightarrow> int \<Rightarrow> pattern" where
  "setInnerScope p name = p\<lparr> p_innerScope := name \<rparr>"

definition setOuterScope :: "pattern \<Rightarrow> int \<Rightarrow> pattern" where
  "setOuterScope p name = p\<lparr> p_outerScope := name \<rparr>"

text \<open>
  \<open>captureNameToInt\<close>: \<open>result\<close> is a \<open>uint32_t\<close>, so \<open>result *= 10\<close> and
  \<open>result += c - '0'\<close> wrap at \<open>2 ^ 32\<close>. The multiplication comes before the digit
  test, as in the source. \<open>None\<close> in the accumulator is the early \<open>return -1\<close>.
\<close>

definition captureNameStep :: "byte \<Rightarrow> 32 word option \<Rightarrow> 32 word option" where
  "captureNameStep c acc =
     (case acc of
        None \<Rightarrow> None
      | Some result \<Rightarrow>
          if c < 48 \<or> c > 57 then None
          else Some (result * 10 + (ucast c - 48)))"

definition captureNameToInt :: "byte list \<Rightarrow> int" where
  "captureNameToInt captureName =
     (case fold captureNameStep captureName (Some 0) of
        None \<Rightarrow> - 1
      | Some result \<Rightarrow> if unat result > INT_MAX then - 1 else uint result)"

definition setCaptureScope :: "'e onig \<Rightarrow> pattern \<Rightarrow> byte list \<Rightarrow> int \<Rightarrow> pattern" where
  "setCaptureScope lib p name scope =
     (let capture = captureNameToInt name in
      if capture \<ge> 0 \<and> capture < p_captures p
      then p\<lparr> p_captureScopes := (p_captureScopes p)[nat capture := scope] \<rparr>
      else (case onig_name_to_group_numbers lib (p_re p) name of
              None \<Rightarrow> p
            | Some captures \<Rightarrow>
                p\<lparr> p_captureScopes :=
                     fold (\<lambda>c cs. cs[c := scope]) captures (p_captureScopes p) \<rparr>))"

definition setCaptureState :: "'e onig \<Rightarrow> pattern \<Rightarrow> byte list \<Rightarrow> nat option \<Rightarrow> pattern" where
  "setCaptureState lib p name s =
     (let capture = captureNameToInt name in
      if capture \<ge> 0 \<and> capture < p_captures p
      then p\<lparr> p_captureStates := (p_captureStates p)[nat capture := s] \<rparr>
      else (case onig_name_to_group_numbers lib (p_re p) name of
              None \<Rightarrow> p
            | Some captures \<Rightarrow>
                p\<lparr> p_captureStates :=
                     fold (\<lambda>c cs. cs[c := s]) captures (p_captureStates p) \<rparr>))"

section \<open>States, frames, renderer and line\<close>

text \<open>
  \<open>struct patternInState\<close>: the tag and its payload. A \<open>MATCH\<close> rule carries its
  pattern, a \<open>BEGIN\<close> rule its pattern and the state \<open>to\<close>. Patterns and states are
  shared and may refer to each other in cycles, so both are handles into the grammar.
\<close>

datatype patternInState = MATCH nat | BEGIN nat nat

fun pis_p :: "patternInState \<Rightarrow> nat" where
  "pis_p (MATCH p) = p"
| "pis_p (BEGIN p to) = p"

text \<open>
  \<open>struct state\<close>. The regset holds the regexes of \<open>s_patterns\<close> in the same order
  (\<open>addPatternInState\<close> adds to both), so it is not a field of its own.
\<close>

record state =
  s_whilePattern :: "nat option"
  s_endPattern :: "nat option"
  s_applyEndPatternLast :: bool
  s_patterns :: "patternInState list"

record grammar =
  g_pattern :: "nat \<Rightarrow> pattern"
  g_state :: "nat \<Rightarrow> state"

definition regset :: "grammar \<Rightarrow> state \<Rightarrow> byte list list" where
  "regset g s = map (\<lambda>r. p_re (g_pattern g (pis_p r))) (s_patterns s)"

record activeState =
  a_s :: "nat option"
  a_p :: "nat option"
  a_beginRegion :: "region option"
  a_endRegex :: "byte list option"
  a_whileRegex :: "byte list option"
  a_beginOffset :: nat
  a_outerBegin :: nat
  a_outerSeq :: nat
  a_innerBegin :: nat
  a_innerSeq :: nat

definition zeroFrame :: activeState where
  "zeroFrame = \<lparr> a_s = None, a_p = None, a_beginRegion = None, a_endRegex = None,
                  a_whileRegex = None, a_beginOffset = 0, a_outerBegin = 0, a_outerSeq = 0,
                  a_innerBegin = 0, a_innerSeq = 0 \<rparr>"

text \<open>
  \<open>struct renderer\<close>. \<open>r_stack\<close> holds the \<open>stackDepth\<close> live frames of the array
  \<open>stack[256]\<close>, bottom first; \<open>stackDepth\<close> is its length.
\<close>

record renderer =
  r_bytes :: "byte list"
  r_offset :: nat
  r_stack :: "activeState list"
  r_seq :: nat

definition STACK_SIZE :: nat where
  "STACK_SIZE = 256"

definition createRenderer :: "byte list \<Rightarrow> nat option \<Rightarrow> renderer" where
  "createRenderer bytes startState =
     \<lparr> r_bytes = bytes, r_offset = 0,
       r_stack = [zeroFrame\<lparr> a_s := startState \<rparr>], r_seq = 0 \<rparr>"

definition popStack :: "renderer \<Rightarrow> nat \<Rightarrow> renderer" where
  "popStack r depth = r\<lparr> r_stack := take depth (r_stack r) \<rparr>"

datatype scopeType = SCOPE_BEGIN | SCOPE_END

record scope =
  sc_ty :: scopeType
  sc_name :: int
  sc_offset :: nat
  sc_startOffset :: nat
  sc_endOffset :: nat
  sc_seq :: nat

text \<open>\<open>struct line\<close>; \<open>l_scopes\<close> is the vector \<open>scopes[0 .. scopesLength)\<close>.\<close>

record line =
  l_scopes :: "scope list"
  l_begin :: nat
  l_end :: nat
  l_endIncludingNewline :: nat

section \<open>Lines of the input\<close>

function advanceToNextLine :: "byte list \<Rightarrow> nat \<Rightarrow> nat \<Rightarrow> nat \<times> nat" where
  "advanceToNextLine bytes len offset =
     (if offset \<ge> len then (offset, offset)
      else if bytes ! offset = 10 then (offset, offset + 1)
      else if bytes ! offset = 13 then
        (if offset + 1 < len \<and> bytes ! (offset + 1) = 10 then (offset, offset + 2)
         else (offset, offset + 1))
      else advanceToNextLine bytes len (offset + 1))"
  by pat_completeness auto
termination
  by (relation "measure (\<lambda>(bytes, len, offset). len - offset)") auto

declare advanceToNextLine.simps [simp del]

text \<open>
  \<open>firstLineMatch\<close>: \<open>onig_match\<close> on the subject \<open>[bytes, bytes + offset)\<close>, at
  position \<open>bytes\<close>.
\<close>

definition firstLineMatch :: "'e onig \<Rightarrow> byte list \<Rightarrow> pattern \<Rightarrow> bool" where
  "firstLineMatch lib bytes p =
     (case advanceToNextLine bytes (length bytes) 0 of
        (beforeNewline, offset) \<Rightarrow> onig_match lib (p_re p) (take offset bytes) 0)"

section \<open>Scope events\<close>

definition addScope :: "line \<Rightarrow> scope \<Rightarrow> line" where
  "addScope ln s = ln\<lparr> l_scopes := l_scopes ln @ [s] \<rparr>"

definition addScopeRange :: "line \<Rightarrow> int \<Rightarrow> nat \<Rightarrow> nat \<Rightarrow> nat \<Rightarrow> line" where
  "addScopeRange ln name seq begin end =
     (let clampedBegin = (if begin < l_begin ln then l_begin ln else begin);
          clampedEnd = (if end > l_end ln then l_end ln else end)
      in if name = 0 \<or> clampedBegin \<ge> clampedEnd then ln
         else addScope
                (addScope ln
                   \<lparr> sc_ty = SCOPE_BEGIN, sc_name = name, sc_offset = clampedBegin,
                     sc_startOffset = begin, sc_endOffset = end, sc_seq = seq \<rparr>)
                \<lparr> sc_ty = SCOPE_END, sc_name = name, sc_offset = clampedEnd,
                  sc_startOffset = begin, sc_endOffset = end, sc_seq = seq \<rparr>)"

definition compareScopes :: "scope \<Rightarrow> scope \<Rightarrow> int" where
  "compareScopes a b =
     (if sc_offset a < sc_offset b then - 1
      else if sc_offset a > sc_offset b then 1
      else if sc_ty a = SCOPE_END \<and> sc_ty b = SCOPE_BEGIN then - 1
      else if sc_ty a = SCOPE_BEGIN \<and> sc_ty b = SCOPE_END then 1
      else let dir = (if sc_ty a = SCOPE_BEGIN then 1 else - 1) in
        if sc_startOffset a < sc_startOffset b then - dir
        else if sc_startOffset a > sc_startOffset b then dir
        else if sc_endOffset a < sc_endOffset b then dir
        else if sc_endOffset a > sc_endOffset b then - dir
        else if sc_seq a < sc_seq b then - dir
        else if sc_seq a > sc_seq b then dir
        else 0)"

text \<open>
  \<open>qsort\<close> is the C library's. It is modelled as insertion sort with the comparator:
  an element goes before the first element it does not compare greater than.
\<close>

fun qsort_insert :: "scope \<Rightarrow> scope list \<Rightarrow> scope list" where
  "qsort_insert x [] = [x]"
| "qsort_insert x (y # ys) =
     (if compareScopes x y \<le> 0 then x # y # ys else y # qsort_insert x ys)"

definition qsort :: "scope list \<Rightarrow> scope list" where
  "qsort xs = foldr qsort_insert xs []"

section \<open>Backreference expansion\<close>

definition size_sub :: "nat \<Rightarrow> nat \<Rightarrow> nat" where
  "size_sub a b = nat ((int a - int b) mod 2 ^ 64)"

definition region_beg :: "region \<Rightarrow> nat \<Rightarrow> int" where
  "region_beg region i = (if i < length region then fst (region ! i) else - 1)"

definition region_end :: "region \<Rightarrow> nat \<Rightarrow> int" where
  "region_end region i = (if i < length region then snd (region ! i) else - 1)"

text \<open>
  The four bytes written for one captured byte. The C expressions are evaluated in
  \<open>int\<close> (here 32 bits) and stored into an \<open>unsigned char\<close>; \<open>0700\<close>, \<open>0070\<close>, \<open>0007\<close>
  are 448, 56 and 7.
\<close>

definition octalEscape :: "byte \<Rightarrow> byte list" where
  "octalEscape b =
     [92,
      ucast (48 + drop_bit 6 ((ucast b :: 32 word) AND 448)),
      ucast (48 + drop_bit 3 ((ucast b :: 32 word) AND 56)),
      ucast (48 + drop_bit 0 ((ucast b :: 32 word) AND 7))]"

text \<open>
  The loop \<open>while (reserved > size)\<close> that doubles \<open>size\<close> (here \<open>sz\<close>). \<open>None\<close> is \<open>goto fail\<close>
  (and the value of a run that never ends, which needs \<open>size = 0\<close>).
\<close>

partial_function (option) growSize :: "nat \<Rightarrow> nat \<Rightarrow> nat option" where
  "growSize reserved sz =
     (if reserved > sz then
        (if sz > SIZE_MAX div 2 then None else growSize reserved ((sz * 2) mod 2 ^ 64))
      else Some sz)"

declare growSize.simps [code]

text \<open>
  The loop over \<open>i\<close> of \<open>backreferencingSearch\<close>. \<open>replaced\<close> is the buffer filled so
  far (\<open>offset\<close> is its length), \<open>sz\<close> its capacity. \<open>None\<close> is \<open>goto fail\<close>.
\<close>

function expandLoop ::
  "byte list \<Rightarrow> nat \<Rightarrow> region \<Rightarrow> byte list \<Rightarrow> nat \<Rightarrow> nat \<Rightarrow> byte list \<Rightarrow> nat \<Rightarrow> byte list option"
where
  "expandLoop bytes beginOffset beginRegion text len i replaced sz =
     (if i < len then
        (if i + 1 < len \<and> text ! i = 92 \<and> text ! (i + 1) \<ge> 48 \<and> text ! (i + 1) \<le> 57 then
           (let which = unat (text ! (i + 1)) - 48 in
            if which \<ge> length beginRegion \<or> region_beg beginRegion which < 0 \<or>
               region_end beginRegion which < region_beg beginRegion which
            then None
            else
              (let start = size_add beginOffset (region_beg beginRegion which);
                   end = size_add beginOffset (region_end beginRegion which);
                   reserved = (length replaced + 4 * size_sub end start + len - (i + 1)) mod 2 ^ 64
               in case growSize reserved sz of
                    None \<Rightarrow> None
                  | Some sz2 \<Rightarrow>
                      expandLoop bytes beginOffset beginRegion text len (i + 2)
                        (replaced @ concat (map (\<lambda>j. octalEscape (bytes ! j)) [start ..< end]))
                        sz2))
         else expandLoop bytes beginOffset beginRegion text len (i + 1) (replaced @ [text ! i]) sz)
      else Some replaced)"
  by pat_completeness auto
termination
  by (relation "measure (\<lambda>(bytes, beginOffset, beginRegion, text, len, i, replaced, sz). len - i)")
     auto

declare expandLoop.simps [simp del]

text \<open>
  \<open>backreferencingSearch\<close> returns the result of the search (the region, \<open>None\<close> for a
  negative result) and the new value of \<open>*re\<close>, the frame's cached regex.
\<close>

definition backreferencingSearch ::
  "'e onig \<Rightarrow> byte list \<Rightarrow> activeState \<Rightarrow> byte list option \<Rightarrow> pattern \<Rightarrow>
   byte list \<Rightarrow> int \<Rightarrow> int \<Rightarrow> bool \<Rightarrow> region option \<times> byte list option"
where
  "backreferencingSearch lib bytes a re p subject start rng opt =
     (if \<not> p_backreferencingPattern p
      then (onig_search lib (p_re p) subject start rng opt, re)
      else case re of
        Some rx \<Rightarrow> (onig_search lib rx subject start rng opt, re)
      | None \<Rightarrow>
          (case a_beginRegion a of
             None \<Rightarrow> (None, None)
           | Some beginRegion \<Rightarrow>
               if p_len p > SIZE_MAX div 2 then (None, None)
               else
                 (case expandLoop bytes (a_beginOffset a) beginRegion
                         (case p_text p of None \<Rightarrow> [] | Some t \<Rightarrow> t) (p_len p) 0 [] (p_len p * 2) of
                    None \<Rightarrow> (None, None)
                  | Some replaced \<Rightarrow>
                      (case onig_new lib replaced of
                         None \<Rightarrow> (None, None)
                       | Some n \<Rightarrow>
                           (onig_search lib replaced subject start rng opt,
                            Some replaced)))))"

section \<open>Rendering a line\<close>

text \<open>
  What \<open>renderLine\<close> and \<open>renderCaptures\<close> change: the library's regset regions,
  the renderer and the line.
\<close>

record 'e rstate =
  rs_lib :: 'e
  rs_r :: renderer
  rs_line :: line

text \<open>
  The \<open>OnigRegion *\<close> handed to \<open>renderCaptures\<close> is either the caller's own
  \<open>endWhileRegion\<close>, which nothing else writes, or the region of regex \<open>res\<close> inside a
  state's regset, which every later search of that regset writes. The second kind is
  read through the library state each time the code reads it.
\<close>

datatype regionRef = LocalRegion region | RegsetRegion nat nat

fun getRegion :: "'e onig \<Rightarrow> 'e \<Rightarrow> regionRef \<Rightarrow> region" where
  "getRegion lib e (LocalRegion region) = region"
| "getRegion lib e (RegsetRegion h res) = onig_regset_get_region lib e h res"

definition captureScope :: "pattern \<Rightarrow> nat \<Rightarrow> int" where
  "captureScope p i = (if i < length (p_captureScopes p) then p_captureScopes p ! i else 0)"

definition captureState :: "pattern \<Rightarrow> nat \<Rightarrow> nat option" where
  "captureState p i = (if i < length (p_captureStates p) then p_captureStates p ! i else None)"

definition lineSubject :: "renderer \<Rightarrow> line \<Rightarrow> byte list" where
  "lineSubject r ln = take (l_endIncludingNewline ln - l_begin ln) (drop (l_begin ln) (r_bytes r))"

definition setFrame :: "'e rstate \<Rightarrow> nat \<Rightarrow> activeState \<Rightarrow> 'e rstate" where
  "setFrame st i a = st\<lparr> rs_r := (rs_r st)\<lparr> r_stack := (r_stack (rs_r st))[i := a] \<rparr> \<rparr>"

definition pushFrame :: "'e rstate \<Rightarrow> activeState \<Rightarrow> 'e rstate" where
  "pushFrame st a = st\<lparr> rs_r := (rs_r st)\<lparr> r_stack := r_stack (rs_r st) @ [a] \<rparr> \<rparr>"

definition popTo :: "'e rstate \<Rightarrow> nat \<Rightarrow> 'e rstate" where
  "popTo st depth = st\<lparr> rs_r := popStack (rs_r st) depth \<rparr>"

definition emitRange :: "'e rstate \<Rightarrow> int \<Rightarrow> nat \<Rightarrow> nat \<Rightarrow> nat \<Rightarrow> 'e rstate" where
  "emitRange st name seq begin end = st\<lparr> rs_line := addScopeRange (rs_line st) name seq begin end \<rparr>"

text \<open>
  The loop at the end of \<open>renderLine\<close>: the ranges of the frames from \<open>stackBase\<close>
  upwards, outer scope first.
\<close>

definition addOpenScope :: "grammar \<Rightarrow> nat \<Rightarrow> activeState \<Rightarrow> line \<Rightarrow> line" where
  "addOpenScope g end a ln =
     (case a_p a of
        None \<Rightarrow> ln
      | Some ph \<Rightarrow>
          addScopeRange
            (addScopeRange ln (p_outerScope (g_pattern g ph)) (a_outerSeq a) (a_outerBegin a) end)
            (p_innerScope (g_pattern g ph)) (a_innerSeq a) (a_innerBegin a) end)"

definition addOpenScopes :: "grammar \<Rightarrow> 'e rstate \<Rightarrow> nat \<Rightarrow> nat \<Rightarrow> 'e rstate" where
  "addOpenScopes g st end stackBase =
     st\<lparr> rs_line := fold (addOpenScope g end) (drop stackBase (r_stack (rs_r st))) (rs_line st) \<rparr>"

text \<open>
  The test of the dispatch loop that lets the regular rule go first: \<open>res\<close> is the
  result of the regset search (index and match position), \<open>endres\<close> that of the search
  for the end pattern (its region).
\<close>

definition regularWins :: "bool \<Rightarrow> region option \<Rightarrow> (nat \<times> int) option \<Rightarrow> bool" where
  "regularWins applyEndPatternLast endres res =
     (case res of
        None \<Rightarrow> False
      | Some (i, matchpos) \<Rightarrow>
          (case endres of
             None \<Rightarrow> True
           | Some endWhileRegion \<Rightarrow>
               matchpos < region_beg endWhileRegion 0 \<or>
               (applyEndPatternLast \<and> matchpos = region_beg endWhileRegion 0)))"

text \<open>
  The frame a winning \<open>BEGIN\<close> rule pushes. \<open>region\<close> is the region of the match,
  \<open>p\<close> the rule's pattern, \<open>to\<close> its target state.
\<close>

definition beginFrame :: "grammar \<Rightarrow> renderer \<Rightarrow> line \<Rightarrow> nat \<Rightarrow> nat \<Rightarrow> region \<Rightarrow> activeState" where
  "beginFrame g r ln p to region =
     \<lparr> a_s = Some to, a_p = Some p,
       a_beginRegion =
         (case s_endPattern (g_state g to) of
            None \<Rightarrow> None
          | Some e \<Rightarrow> if p_backreferencingPattern (g_pattern g e) then Some region else None),
       a_endRegex = None, a_whileRegex = None,
       a_beginOffset = l_begin ln,
       a_outerBegin = size_add (l_begin ln) (region_beg region 0),
       a_outerSeq = r_seq r,
       a_innerBegin = size_add (l_begin ln) (region_end region 0),
       a_innerSeq = r_seq r + 1 \<rparr>"

text \<open>
  \<open>renderLine\<close> and \<open>renderCaptures\<close> call each other, and the dispatch loop has no
  bound that is plain from its text, so the functions take fuel: every call and every
  loop iteration uses one unit, and \<open>None\<close> means the fuel ran out (or, where noted,
  that the C code dereferences a null pointer). Each body is written once, with the
  functions it calls as its first arguments; the recursion on the fuel below ties them
  together.
  \<^item> \<open>renderCaptures\<close> is the loop over the groups, at group \<open>i\<close>.
  \<^item> \<open>whileLoop\<close> is the first loop of \<open>renderLine\<close>, at frame \<open>i\<close>; it returns the
    \<open>offset\<close> it reached.
  \<^item> \<open>dispatchLoop\<close> is the loop \<open>while (matchesWithoutProgress < 32)\<close>; a \<open>break\<close>
    returns the current state.
\<close>

type_synonym 'e renderCaptures_t = "'e rstate \<Rightarrow> nat \<Rightarrow> regionRef \<Rightarrow> nat \<Rightarrow> 'e rstate option"
type_synonym 'e whileLoop_t = "'e rstate \<Rightarrow> nat \<Rightarrow> nat \<Rightarrow> nat \<Rightarrow> ('e rstate \<times> nat) option"
type_synonym 'e dispatchLoop_t = "'e rstate \<Rightarrow> nat \<Rightarrow> nat \<Rightarrow> nat \<Rightarrow> nat \<Rightarrow> nat \<Rightarrow> 'e rstate option"
type_synonym 'e renderLine_t = "'e rstate \<Rightarrow> nat \<Rightarrow> nat \<Rightarrow> nat \<Rightarrow> 'e rstate option"

definition renderCaptures_body ::
  "'e renderCaptures_t \<Rightarrow> 'e renderLine_t \<Rightarrow> 'e onig \<Rightarrow> grammar \<Rightarrow> 'e renderCaptures_t"
where
  "renderCaptures_body renderCaptures' renderLine' lib g st p ref i =
     (let region = getRegion lib (rs_lib st) ref; ln = rs_line st; r = rs_r st in
      if i < length region then
        (if region_beg region i < 0 then renderCaptures' st p ref (i + 1)
         else if captureScope (g_pattern g p) i \<noteq> 0 then
           renderCaptures'
             ((emitRange st (captureScope (g_pattern g p) i) (r_seq r)
                 (size_add (l_begin ln) (region_beg region i))
                 (size_add (l_begin ln) (region_end region i)))
              \<lparr> rs_r := r\<lparr> r_seq := r_seq r + 1 \<rparr> \<rparr>)
             p ref (i + 1)
         else
           (case captureState (g_pattern g p) i of
              None \<Rightarrow> renderCaptures' st p ref (i + 1)
            | Some cs \<Rightarrow>
                if length (r_stack r) = STACK_SIZE then renderCaptures' st p ref (i + 1)
                else
                  (let depth = length (r_stack r) in
                   case renderLine' (pushFrame st (zeroFrame\<lparr> a_s := Some cs \<rparr>))
                          (size_add (l_begin ln) (region_beg region i))
                          (size_add (l_begin ln) (region_end region i))
                          (depth + 1) of
                     None \<Rightarrow> None
                   | Some st' \<Rightarrow> renderCaptures' (popTo st' depth) p ref (i + 1))))
      else Some st)"

definition whileLoop_body ::
  "'e whileLoop_t \<Rightarrow> 'e renderCaptures_t \<Rightarrow> 'e onig \<Rightarrow> grammar \<Rightarrow> 'e whileLoop_t"
where
  "whileLoop_body whileLoop' renderCaptures' lib g st end i offset =
     (let r = rs_r st; ln = rs_line st in
      if i < length (r_stack r) then
        (case a_s (r_stack r ! i) of
           None \<Rightarrow> None
         | Some h \<Rightarrow>
             (case s_whilePattern (g_state g h) of
                None \<Rightarrow> whileLoop' st end (i + 1) offset
              | Some p \<Rightarrow>
                  (case backreferencingSearch lib (r_bytes r) (r_stack r ! i)
                          (a_whileRegex (r_stack r ! i)) (g_pattern g p) (lineSubject r ln)
                          (ptr_diff offset (l_begin ln)) (ptr_diff end (l_begin ln)) True of
                     (res, re) \<Rightarrow>
                       (let st1 = setFrame st i ((r_stack r ! i)\<lparr> a_whileRegex := re \<rparr>) in
                        case res of
                          None \<Rightarrow> Some (popTo st1 i, offset)
                        | Some endWhileRegion \<Rightarrow>
                            (case renderCaptures' st1 p (LocalRegion endWhileRegion) 0 of
                               None \<Rightarrow> None
                             | Some st2 \<Rightarrow>
                                 whileLoop'
                                   (setFrame st2 i
                                      ((r_stack (rs_r st2) ! i)
                                       \<lparr> a_outerBegin :=
                                           size_add (l_begin ln) (region_beg endWhileRegion 0),
                                         a_innerBegin :=
                                           size_add (l_begin ln) (region_end endWhileRegion 0) \<rparr>))
                                   end (i + 1)
                                   (size_add (l_begin ln) (region_end endWhileRegion 0)))))))
      else Some (st, offset))"

text \<open>The regular rule \<open>res\<close> of state \<open>h\<close> has won; \<open>st2\<close> is the state after both searches.\<close>

definition applyRegular ::
  "'e dispatchLoop_t \<Rightarrow> 'e renderCaptures_t \<Rightarrow> 'e onig \<Rightarrow> grammar \<Rightarrow> 'e rstate \<Rightarrow>
   nat \<Rightarrow> nat \<Rightarrow> nat \<Rightarrow> nat \<Rightarrow> nat \<Rightarrow> nat \<Rightarrow> 'e rstate option"
where
  "applyRegular dispatchLoop' renderCaptures' lib g st2 h res end stackBase maxOffset
     matchesWithoutProgress =
     (let s = g_state g h; ln = rs_line st2 in
      case renderCaptures' st2 (pis_p (s_patterns s ! res)) (RegsetRegion h res) 0 of
        None \<Rightarrow> None
      | Some st3 \<Rightarrow>
          (let region = onig_regset_get_region lib (rs_lib st3) h res;
               next = size_add (l_begin ln) (region_end region 0)
           in case s_patterns s ! res of
                MATCH p \<Rightarrow>
                  dispatchLoop' st3 end stackBase next
                    (if next > maxOffset then next else maxOffset)
                    (if next > maxOffset then 0 else matchesWithoutProgress + 1)
              | BEGIN p to \<Rightarrow>
                  if length (r_stack (rs_r st3)) = STACK_SIZE then Some st3
                  else
                    dispatchLoop'
                      ((pushFrame st3 (beginFrame g (rs_r st3) ln p to region))
                       \<lparr> rs_r :=
                           (rs_r (pushFrame st3 (beginFrame g (rs_r st3) ln p to region)))
                           \<lparr> r_seq := r_seq (rs_r st3) + 2 \<rparr> \<rparr>)
                      end stackBase next
                      (if next > maxOffset then next else maxOffset)
                      (if next > maxOffset then 0 else matchesWithoutProgress + 1)))"

text \<open>
  The end pattern \<open>e\<close> of the top frame \<open>a\<close> has won with the region \<open>endWhileRegion\<close>.
\<close>

definition applyEnd ::
  "'e dispatchLoop_t \<Rightarrow> 'e renderCaptures_t \<Rightarrow> grammar \<Rightarrow> 'e rstate \<Rightarrow> activeState \<Rightarrow> nat \<Rightarrow>
   region \<Rightarrow> nat \<Rightarrow> nat \<Rightarrow> nat \<Rightarrow> nat \<Rightarrow> 'e rstate option"
where
  "applyEnd dispatchLoop' renderCaptures' g st2 a e endWhileRegion end stackBase maxOffset
     matchesWithoutProgress =
     (let ln = rs_line st2 in
      case renderCaptures' st2 e (LocalRegion endWhileRegion) 0 of
        None \<Rightarrow> None
      | Some st3 \<Rightarrow>
          if length (r_stack (rs_r st3)) \<le> stackBase then Some st3
          else
            (case a_p a of
               None \<Rightarrow> None
             | Some ap \<Rightarrow>
                 dispatchLoop'
                   (popTo
                      (emitRange
                         (emitRange st3 (p_innerScope (g_pattern g ap)) (a_innerSeq a)
                            (a_innerBegin a)
                            (size_add (l_begin ln) (region_beg endWhileRegion 0)))
                         (p_outerScope (g_pattern g ap)) (a_outerSeq a) (a_outerBegin a)
                         (size_add (l_begin ln) (region_end endWhileRegion 0)))
                      (length (r_stack (rs_r st3)) - 1))
                   end stackBase
                   (size_add (l_begin ln) (region_end endWhileRegion 0))
                   maxOffset matchesWithoutProgress))"

definition dispatchLoop_body ::
  "'e dispatchLoop_t \<Rightarrow> 'e renderCaptures_t \<Rightarrow> 'e onig \<Rightarrow> grammar \<Rightarrow> 'e dispatchLoop_t"
where
  "dispatchLoop_body dispatchLoop' renderCaptures' lib g st end stackBase offset maxOffset
     matchesWithoutProgress =
     (if matchesWithoutProgress < 32 then
        (let r = rs_r st; ln = rs_line st in
         if r_stack r = [] then None
         else
           (let a = last (r_stack r) in
            case a_s a of
              None \<Rightarrow> Some st
            | Some h \<Rightarrow>
                (let s = g_state g h;
                     opt = (offset > a_innerBegin a);
                     endsearch =
                       (case s_endPattern s of
                          None \<Rightarrow> (None, a_endRegex a)
                        | Some e \<Rightarrow>
                            backreferencingSearch lib (r_bytes r) a (a_endRegex a) (g_pattern g e)
                              (lineSubject r ln) (ptr_diff offset (l_begin ln)) (ptr_diff end (l_begin ln)) opt);
                     endres = fst endsearch;
                     st1 = setFrame st (length (r_stack r) - 1) (a\<lparr> a_endRegex := snd endsearch \<rparr>);
                     search = onig_regset_search lib (rs_lib st1) h (regset g s) (lineSubject r ln)
                                (ptr_diff offset (l_begin ln)) (ptr_diff end (l_begin ln)) opt;
                     st2 = st1\<lparr> rs_lib := fst search \<rparr>
                 in
                 if regularWins (s_applyEndPatternLast s) endres (snd search) then
                   (case snd search of
                      None \<Rightarrow> None
                    | Some (res, matchpos) \<Rightarrow>
                        applyRegular dispatchLoop' renderCaptures' lib g st2 h res end stackBase
                          maxOffset matchesWithoutProgress)
                 else
                   (case endres of
                      None \<Rightarrow> Some st2
                    | Some endWhileRegion \<Rightarrow>
                        (case s_endPattern s of
                           None \<Rightarrow> None
                         | Some e \<Rightarrow>
                             applyEnd dispatchLoop' renderCaptures' g st2 a e endWhileRegion end
                               stackBase maxOffset matchesWithoutProgress)))))
      else Some st)"

definition renderLine_body ::
  "'e whileLoop_t \<Rightarrow> 'e dispatchLoop_t \<Rightarrow> grammar \<Rightarrow> 'e renderLine_t"
where
  "renderLine_body whileLoop' dispatchLoop' g st begin end stackBase =
     (if begin = end then Some st
      else
        (case whileLoop' st end stackBase begin of
           None \<Rightarrow> None
         | Some (st1, offset) \<Rightarrow>
             (case dispatchLoop' st1 end stackBase offset begin 0 of
                None \<Rightarrow> None
              | Some st2 \<Rightarrow> Some (addOpenScopes g st2 end stackBase))))"

primrec render ::
  "nat \<Rightarrow> 'e onig \<Rightarrow> grammar \<Rightarrow>
   'e renderCaptures_t \<times> 'e whileLoop_t \<times> 'e dispatchLoop_t \<times> 'e renderLine_t"
where
  "render 0 lib g =
     (\<lambda>st p ref i. None, \<lambda>st end i offset. None,
      \<lambda>st end stackBase offset maxOffset matchesWithoutProgress. None,
      \<lambda>st begin end stackBase. None)"
| "render (Suc n) lib g =
     (case render n lib g of
        (renderCaptures', whileLoop', dispatchLoop', renderLine') \<Rightarrow>
          (renderCaptures_body renderCaptures' renderLine' lib g,
           whileLoop_body whileLoop' renderCaptures' lib g,
           dispatchLoop_body dispatchLoop' renderCaptures' lib g,
           renderLine_body whileLoop' dispatchLoop' g))"

definition renderCaptures :: "nat \<Rightarrow> 'e onig \<Rightarrow> grammar \<Rightarrow> 'e renderCaptures_t" where
  "renderCaptures n lib g = fst (render n lib g)"

definition whileLoop :: "nat \<Rightarrow> 'e onig \<Rightarrow> grammar \<Rightarrow> 'e whileLoop_t" where
  "whileLoop n lib g = fst (snd (render n lib g))"

definition dispatchLoop :: "nat \<Rightarrow> 'e onig \<Rightarrow> grammar \<Rightarrow> 'e dispatchLoop_t" where
  "dispatchLoop n lib g = fst (snd (snd (render n lib g)))"

definition renderLine :: "nat \<Rightarrow> 'e onig \<Rightarrow> grammar \<Rightarrow> 'e renderLine_t" where
  "renderLine n lib g = snd (snd (snd (render n lib g)))"

text \<open>
  \<open>renderNextLine\<close>: \<open>None\<close> is the result \<open>false\<close> (or no fuel); otherwise the new
  state, whose line is the one handed back.
\<close>

definition renderNextLine :: "nat \<Rightarrow> 'e onig \<Rightarrow> grammar \<Rightarrow> 'e rstate \<Rightarrow> 'e rstate option option" where
  "renderNextLine n lib g st =
     (let r = rs_r st in
      if r_offset r \<ge> length (r_bytes r) then Some None
      else
        (case advanceToNextLine (r_bytes r) (length (r_bytes r)) (r_offset r) of
           (beforeNewline, offset) \<Rightarrow>
             (case renderLine n lib g
                     (st\<lparr> rs_r := r\<lparr> r_offset := offset \<rparr>,
                          rs_line := (rs_line st)\<lparr> l_scopes := [], l_begin := r_offset r,
                                       l_end := beforeNewline, l_endIncludingNewline := offset \<rparr> \<rparr>)
                     (r_offset r) offset 1 of
                None \<Rightarrow> None
              | Some st' \<Rightarrow>
                  Some (Some (st'\<lparr> rs_line := (rs_line st')\<lparr> l_scopes := qsort (l_scopes (rs_line st')) \<rparr> \<rparr>)))))"

section \<open>A literal-only instance of the regex library\<close>

text \<open>
  For concrete runs the library is instantiated with the fragment of Oniguruma in which
  a regex is a sequence of ordinary bytes: it matches exactly its own bytes, has no
  capture group besides group 0 and no names, and always compiles. A search whose
  \<open>start\<close> lies outside the subject fails, as \<open>onig_search\<close> and
  \<open>onig_regset_search\<close> do (\<open>start > end || start < str\<close>); otherwise it tries the
  positions from \<open>start\<close> to \<open>range\<close> in turn (downwards when \<open>range < start\<close>) and
  reports the first position where the bytes are found. The regions of a regset are
  a store from (regset, index) to the pair of group 0: \<open>None\<close> before any search, group
  0 of the winner after a search and \<open>(-1, -1)\<close> for the other regexes, which a regset
  search clears. The regset search is position-lead: the earliest position wins, ties
  go to the lower index.
\<close>

definition lit_at :: "byte list \<Rightarrow> byte list \<Rightarrow> nat \<Rightarrow> bool" where
  "lit_at re subject pos \<longleftrightarrow>
     pos + length re \<le> length subject \<and> take (length re) (drop pos subject) = re"

definition lit_search :: "byte list \<Rightarrow> byte list \<Rightarrow> int \<Rightarrow> int \<Rightarrow> bool \<Rightarrow> region option" where
  "lit_search re subject start rng opt =
     (if start < 0 \<or> int (length subject) < start then None
      else
        (case find (lit_at re subject)
                (if start \<le> rng then [nat start ..< Suc (nat rng)]
                 else rev [nat rng ..< Suc (nat start)]) of
           None \<Rightarrow> None
         | Some pos \<Rightarrow> Some [(int pos, int (pos + length re))]))"

type_synonym lit_regions = "nat \<times> nat \<Rightarrow> (int \<times> int) option"

fun lit_lead :: "(nat \<times> region option) list \<Rightarrow> (nat \<times> region) option \<Rightarrow> (nat \<times> region) option" where
  "lit_lead [] best = best"
| "lit_lead ((i, None) # rs) best = lit_lead rs best"
| "lit_lead ((i, Some r) # rs) None = lit_lead rs (Some (i, r))"
| "lit_lead ((i, Some r) # rs) (Some (j, q)) =
     lit_lead rs (if region_beg r 0 < region_beg q 0 then Some (i, r) else Some (j, q))"

definition lit_regset_search ::
  "lit_regions \<Rightarrow> nat \<Rightarrow> byte list list \<Rightarrow> byte list \<Rightarrow> int \<Rightarrow> int \<Rightarrow> bool \<Rightarrow>
   lit_regions \<times> (nat \<times> int) option"
where
  "lit_regset_search e h regs subject start rng opt =
     (case lit_lead (zip [0 ..< length regs]
                       (map (\<lambda>re. lit_search re subject start rng opt) regs)) None of
        None \<Rightarrow>
          ((\<lambda>(h', i). if h' = h \<and> i < length regs then Some (- 1, - 1) else e (h', i)), None)
      | Some (w, r) \<Rightarrow>
          ((\<lambda>(h', i). if h' = h \<and> i < length regs
                       then (if i = w then Some (region_beg r 0, region_end r 0)
                             else Some (- 1, - 1))
                       else e (h', i)),
           Some (w, region_beg r 0)))"

definition lit_get_region :: "lit_regions \<Rightarrow> nat \<Rightarrow> nat \<Rightarrow> region" where
  "lit_get_region e h i = (case e (h, i) of None \<Rightarrow> [] | Some be \<Rightarrow> [be])"

definition lit_lib :: "lit_regions onig" where
  "lit_lib = \<lparr> onig_new = (\<lambda>regex. Some 0),
               onig_match = lit_at,
               onig_search = lit_search,
               onig_name_to_group_numbers = (\<lambda>re name. None),
               onig_regset_search = lit_regset_search,
               onig_regset_get_region = lit_get_region \<rparr>"

section \<open>Reference functions for the properties\<close>

text \<open>
  The text \<open>createBackreferencingPattern\<close> compiles, by recursion over the source
  bytes: a backslash that stands before a digit becomes \<open>'0'\<close>, every other byte
  stays. \<open>hasBackreference\<close> says whether there is such a backslash.
\<close>

fun blankBackslashes :: "byte list \<Rightarrow> byte list" where
  "blankBackslashes (a # b # rest) =
     (if a = 92 \<and> is_digit b then 48 else a) # blankBackslashes (b # rest)"
| "blankBackslashes xs = xs"

fun hasBackreference :: "byte list \<Rightarrow> bool" where
  "hasBackreference (a # b # rest) = ((a = 92 \<and> is_digit b) \<or> hasBackreference (b # rest))"
| "hasBackreference xs = False"

text \<open>
  The first line of a buffer with its terminator (\<open>\n\<close>, \<open>\r\<close> or \<open>\r\n\<close>), or the
  whole buffer when it has none.
\<close>

fun firstLine :: "byte list \<Rightarrow> byte list" where
  "firstLine [] = []"
| "firstLine (c # cs) =
     (if c = 10 then [10]
      else if c = 13 then (case cs of [] \<Rightarrow> [13] | d # ds \<Rightarrow> if d = 10 then [13, 10] else [13])
      else c # firstLine cs)"

text \<open>
  Names for the two searches of one iteration of the dispatch loop, for the top frame's
  state \<open>h\<close>: the search for its end pattern (the region, and the frame's cached regex
  afterwards), the search of its regset (the library state afterwards, and the index
  and position of the match), and the state after both.
\<close>

definition endSearch ::
  "'e onig \<Rightarrow> grammar \<Rightarrow> 'e rstate \<Rightarrow> nat \<Rightarrow> nat \<Rightarrow> nat \<Rightarrow> region option \<times> byte list option"
where
  "endSearch lib g st h offset end =
     (let r = rs_r st; ln = rs_line st; a = last (r_stack r) in
      case s_endPattern (g_state g h) of
        None \<Rightarrow> (None, a_endRegex a)
      | Some e \<Rightarrow>
          backreferencingSearch lib (r_bytes r) a (a_endRegex a) (g_pattern g e)
            (lineSubject r ln) (ptr_diff offset (l_begin ln)) (ptr_diff end (l_begin ln))
            (offset > a_innerBegin a))"

definition regsetSearch ::
  "'e onig \<Rightarrow> grammar \<Rightarrow> 'e rstate \<Rightarrow> nat \<Rightarrow> nat \<Rightarrow> nat \<Rightarrow> 'e \<times> (nat \<times> int) option"
where
  "regsetSearch lib g st h offset end =
     (let r = rs_r st; ln = rs_line st; a = last (r_stack r) in
      onig_regset_search lib (rs_lib st) h (regset g (g_state g h)) (lineSubject r ln)
        (ptr_diff offset (l_begin ln)) (ptr_diff end (l_begin ln)) (offset > a_innerBegin a))"

definition afterSearches ::
  "'e onig \<Rightarrow> grammar \<Rightarrow> 'e rstate \<Rightarrow> nat \<Rightarrow> nat \<Rightarrow> nat \<Rightarrow> 'e rstate"
where
  "afterSearches lib g st h offset end =
     (setFrame st (length (r_stack (rs_r st)) - 1)
        ((last (r_stack (rs_r st)))\<lparr> a_endRegex := snd (endSearch lib g st h offset end) \<rparr>))
     \<lparr> rs_lib := fst (regsetSearch lib g st h offset end) \<rparr>"

text \<open>
  Small grammars over the literal library, and renderers to run them on.
  \<open>lit_pattern\<close> is \<open>createPattern\<close> followed by \<open>setOuterScope\<close> and
  \<open>setCaptureScope\<close> for the name \<open>0\<close>.
\<close>

definition lit_pattern :: "byte list \<Rightarrow> int \<Rightarrow> int \<Rightarrow> pattern" where
  "lit_pattern regex outer whole =
     setCaptureScope lit_lib (setOuterScope (the (createPattern lit_lib regex)) outer) [48] whole"

definition emptyLine :: line where
  "emptyLine = \<lparr> l_scopes = [], l_begin = 0, l_end = 0, l_endIncludingNewline = 0 \<rparr>"

definition start :: "byte list \<Rightarrow> lit_regions rstate" where
  "start bytes =
     \<lparr> rs_lib = (\<lambda>k. None), rs_r = createRenderer bytes (Some 0), rs_line = emptyLine \<rparr>"

text \<open>
  \<open>tieGrammar\<close>: the start state opens state 1 on \<open>(\<close> (outer scope 7); state 1 has
  the \<open>MATCH\<close> rule \<open>a\<close> (scope 5 on the match) and the end pattern \<open>a\<close>.
\<close>

definition tieGrammar :: "bool \<Rightarrow> grammar" where
  "tieGrammar applyLast =
     \<lparr> g_pattern = (\<lambda>p. if p = 0 then lit_pattern [40] 7 0
                         else if p = 1 then lit_pattern [97] 0 5
                         else lit_pattern [97] 0 0),
       g_state = (\<lambda>h. if h = 0
                       then \<lparr> s_whilePattern = None, s_endPattern = None,
                              s_applyEndPatternLast = False, s_patterns = [BEGIN 0 1] \<rparr>
                       else \<lparr> s_whilePattern = None, s_endPattern = Some 2,
                              s_applyEndPatternLast = applyLast, s_patterns = [MATCH 1] \<rparr>) \<rparr>"

text \<open>
  \<open>baseTieGrammar\<close>: the start state has the \<open>MATCH\<close> rule \<open>a\<close> (scope 5 on the
  match) and the end pattern \<open>a\<close> (scope 6 on the match). \<open>baseTieState\<close> is the
  renderer on the input \<open>a\<close> with the line \<open>[0, 1)\<close> to render, as \<open>renderNextLine\<close>
  sets it up.
\<close>

definition baseTieGrammar :: grammar where
  "baseTieGrammar =
     \<lparr> g_pattern = (\<lambda>p. if p = 0 then lit_pattern [97] 0 5 else lit_pattern [97] 0 6),
       g_state = (\<lambda>h. \<lparr> s_whilePattern = None, s_endPattern = Some 1,
                         s_applyEndPatternLast = False, s_patterns = [MATCH 0] \<rparr>) \<rparr>"

definition baseTieState :: "lit_regions rstate" where
  "baseTieState =
     \<lparr> rs_lib = (\<lambda>k. None),
       rs_r = \<lparr> r_bytes = [97], r_offset = 1, r_stack = [zeroFrame\<lparr> a_s := Some 0 \<rparr>],
                r_seq = 0 \<rparr>,
       rs_line = \<lparr> l_scopes = [], l_begin = 0, l_end = 1, l_endIncludingNewline = 1 \<rparr> \<rparr>"

text \<open>
  \<open>deepGrammar\<close>: one state, with the \<open>BEGIN\<close> rule \<open>a\<close> (scope 8 on the match) that
  re-enters it and the \<open>MATCH\<close> rule \<open>b\<close> (scope 9). \<open>deepState k\<close> is a renderer on
  the input \<open>ab\<close> whose stack holds the bottom frame and \<open>k\<close> frames of that \<open>BEGIN\<close>
  rule, with the line \<open>[0, 2)\<close> to render.
\<close>

definition deepGrammar :: grammar where
  "deepGrammar =
     \<lparr> g_pattern = (\<lambda>p. if p = 0 then lit_pattern [97] 0 8 else lit_pattern [98] 0 9),
       g_state = (\<lambda>h. \<lparr> s_whilePattern = None, s_endPattern = None,
                         s_applyEndPatternLast = False,
                         s_patterns = [BEGIN 0 0, MATCH 1] \<rparr>) \<rparr>"

definition deepState :: "nat \<Rightarrow> lit_regions rstate" where
  "deepState k =
     \<lparr> rs_lib = (\<lambda>k. None),
       rs_r = \<lparr> r_bytes = [97, 98], r_offset = 2,
                r_stack = zeroFrame\<lparr> a_s := Some 0 \<rparr> #
                          replicate k (zeroFrame\<lparr> a_s := Some 0, a_p := Some 0 \<rparr>),
                r_seq = 0 \<rparr>,
       rs_line = \<lparr> l_scopes = [], l_begin = 0, l_end = 2, l_endIncludingNewline = 2 \<rparr> \<rparr>"

text \<open>
  \<open>newlineGrammar\<close>: the start state opens state 1 on the byte \<open>\n\<close>.
\<close>

definition newlineGrammar :: grammar where
  "newlineGrammar =
     \<lparr> g_pattern = (\<lambda>p. lit_pattern [10] 7 5),
       g_state = (\<lambda>h. if h = 0
                       then \<lparr> s_whilePattern = None, s_endPattern = None,
                              s_applyEndPatternLast = False, s_patterns = [BEGIN 0 1] \<rparr>
                       else \<lparr> s_whilePattern = None, s_endPattern = None,
                              s_applyEndPatternLast = False, s_patterns = [] \<rparr>) \<rparr>"

text \<open>
  \<open>whileGrammar\<close>: \<open>a\<close> opens state 1 (outer scope 1), which stays open on a line
  where \<open>w\<close> is found; inside it \<open>b\<close> opens state 2 (outer scope 2), which \<open>e\<close> ends.
\<close>

definition whileGrammar :: grammar where
  "whileGrammar =
     \<lparr> g_pattern = (\<lambda>p. if p = 0 then lit_pattern [97] 1 0
                         else if p = 1 then lit_pattern [119] 0 0
                         else if p = 2 then lit_pattern [98] 2 0
                         else lit_pattern [101] 0 0),
       g_state = (\<lambda>h. if h = 0
                       then \<lparr> s_whilePattern = None, s_endPattern = None,
                              s_applyEndPatternLast = False, s_patterns = [BEGIN 0 1] \<rparr>
                       else if h = 1
                       then \<lparr> s_whilePattern = Some 1, s_endPattern = None,
                              s_applyEndPatternLast = False, s_patterns = [BEGIN 2 2] \<rparr>
                       else \<lparr> s_whilePattern = None, s_endPattern = Some 3,
                              s_applyEndPatternLast = False, s_patterns = [] \<rparr>) \<rparr>"

text \<open>
  The scan the specification describes: a stack of sequence numbers, a \<open>BEGIN\<close> event
  pushes its own, an \<open>END\<close> event must find its own on top and pops it; nothing may be
  left open.
\<close>

fun wellNested :: "nat list \<Rightarrow> scope list \<Rightarrow> bool" where
  "wellNested stk [] = (stk = [])"
| "wellNested stk (e # es) =
     (case sc_ty e of
        SCOPE_BEGIN \<Rightarrow> wellNested (sc_seq e # stk) es
      | SCOPE_END \<Rightarrow>
          (case stk of [] \<Rightarrow> False | t # rest \<Rightarrow> t = sc_seq e \<and> wellNested rest es))"

definition countBegin :: "scope list \<Rightarrow> nat" where
  "countBegin es = length (filter (\<lambda>e. sc_ty e = SCOPE_BEGIN) es)"

definition countEnd :: "scope list \<Rightarrow> nat" where
  "countEnd es = length (filter (\<lambda>e. sc_ty e = SCOPE_END) es)"

text \<open>
  \<open>tieState\<close>: the renderer after \<open>(\<close> of the input \<open>(a\<close> has opened state 1 of
  \<open>tieGrammar\<close>, with the line \<open>[0, 2)\<close> to render from offset 1.
\<close>

definition tieState :: "lit_regions rstate" where
  "tieState =
     \<lparr> rs_lib = (\<lambda>k. None),
       rs_r = \<lparr> r_bytes = [40, 97], r_offset = 2,
                r_stack = [zeroFrame\<lparr> a_s := Some 0 \<rparr>,
                           zeroFrame\<lparr> a_s := Some 1, a_p := Some 0, a_innerBegin := 1,
                                       a_innerSeq := 1 \<rparr>],
                r_seq = 2 \<rparr>,
       rs_line = \<lparr> l_scopes = [], l_begin = 0, l_end = 2, l_endIncludingNewline = 2 \<rparr> \<rparr>"

text \<open>What a test reads off a state: the stack depth and the events (name, offset, kind).\<close>

definition view :: "'e rstate \<Rightarrow> nat \<times> (int \<times> nat \<times> scopeType) list" where
  "view st =
     (length (r_stack (rs_r st)),
      map (\<lambda>e. (sc_name e, sc_offset e, sc_ty e)) (l_scopes (rs_line st)))"

text \<open>
  What \<open>addScopeRange\<close> makes of the vector of events: a sequence of pairs, a
  \<open>BEGIN\<close> event and then the \<open>END\<close> event of the same range, at a greater offset.
\<close>

fun wellPaired :: "scope list \<Rightarrow> bool" where
  "wellPaired [] = True"
| "wellPaired [x] = False"
| "wellPaired (b # e # rest) =
     (sc_ty b = SCOPE_BEGIN \<and> sc_ty e = SCOPE_END \<and> sc_seq b = sc_seq e \<and>
      sc_offset b < sc_offset e \<and> wellPaired rest)"

text \<open>
  Properties of the line that every \<open>addScopeRange\<close> keeps, and what it means for
  the four functions at fuel \<open>n\<close> to keep such a property.
\<close>

definition lineClosed :: "(line \<Rightarrow> bool) \<Rightarrow> bool" where
  "lineClosed Q \<longleftrightarrow> (\<forall>ln name seq b e. Q ln \<longrightarrow> Q (addScopeRange ln name seq b e))"

definition keepsLine :: "(line \<Rightarrow> bool) \<Rightarrow> nat \<Rightarrow> 'e onig \<Rightarrow> grammar \<Rightarrow> bool" where
  "keepsLine Q n lib g \<longleftrightarrow>
     (\<forall>st p ref i st'. renderCaptures n lib g st p ref i = Some st' \<longrightarrow> Q (rs_line st) \<longrightarrow> Q (rs_line st')) \<and>
     (\<forall>st e i off st' off'. whileLoop n lib g st e i off = Some (st', off') \<longrightarrow> Q (rs_line st) \<longrightarrow> Q (rs_line st')) \<and>
     (\<forall>st e sb off mo mwp st'. dispatchLoop n lib g st e sb off mo mwp = Some st' \<longrightarrow> Q (rs_line st) \<longrightarrow> Q (rs_line st')) \<and>
     (\<forall>st b e sb st'. renderLine n lib g st b e sb = Some st' \<longrightarrow> Q (rs_line st) \<longrightarrow> Q (rs_line st'))"

text \<open>
  The stacks a call of \<open>renderLine\<close> with base \<open>stackBase\<close> runs on: the base is at
  least 1 (\<open>renderNextLine\<close> passes 1, \<open>renderCaptures\<close> the depth after its push), the
  stack reaches up to the base and fits the array, and every frame from the base
  upwards was pushed by a \<open>BEGIN\<close> rule, which sets both \<open>s\<close> and \<open>p\<close>.
\<close>

definition frameOpened :: "activeState \<Rightarrow> bool" where
  "frameOpened a \<longleftrightarrow> a_s a \<noteq> None \<and> a_p a \<noteq> None"

definition wfStack :: "nat \<Rightarrow> activeState list \<Rightarrow> bool" where
  "wfStack stackBase stk \<longleftrightarrow>
     1 \<le> stackBase \<and> stackBase \<le> length stk \<and> length stk \<le> STACK_SIZE \<and>
     list_all frameOpened (drop stackBase stk)"

definition isBegin :: "scope \<Rightarrow> bool" where
  "isBegin e \<longleftrightarrow> sc_ty e = SCOPE_BEGIN"

definition isEnd :: "scope \<Rightarrow> bool" where
  "isEnd e \<longleftrightarrow> sc_ty e = SCOPE_END"

text \<open>
  The expansion of a backreferencing source as the specification words it.
  \<open>octalSpec\<close> is the four bytes for one captured byte; \<open>captured\<close> is the bytes of
  capture group \<open>d\<close> of the begin match (\<open>None\<close> when the group did not take part or
  its indices are inconsistent); \<open>expansion\<close> replaces every backslash-digit pair and
  keeps every other byte.
\<close>

definition octalSpec :: "byte \<Rightarrow> byte list" where
  "octalSpec b = [92, 48 + (drop_bit 6 b AND 7), 48 + (drop_bit 3 b AND 7), 48 + (b AND 7)]"

definition captured :: "byte list \<Rightarrow> nat \<Rightarrow> region \<Rightarrow> nat \<Rightarrow> byte list option" where
  "captured bytes beginOffset region d =
     (if d \<ge> length region \<or> region_beg region d < 0 \<or>
         region_end region d < region_beg region d
      then None
      else Some (map (\<lambda>j. bytes ! j)
                   [beginOffset + nat (region_beg region d) ..<
                    beginOffset + nat (region_end region d)]))"

fun expansion :: "byte list \<Rightarrow> nat \<Rightarrow> region \<Rightarrow> byte list \<Rightarrow> byte list option" where
  "expansion bytes beginOffset region [] = Some []"
| "expansion bytes beginOffset region [a] = Some [a]"
| "expansion bytes beginOffset region (a # d # rest) =
     (if a = 92 \<and> is_digit d then
        (case captured bytes beginOffset region (unat d - 48) of
           None \<Rightarrow> None
         | Some cap \<Rightarrow>
             map_option (\<lambda>t. concat (map octalSpec cap) @ t)
               (expansion bytes beginOffset region rest))
      else map_option (\<lambda>t. a # t) (expansion bytes beginOffset region (d # rest)))"

text \<open>The capture groups a backreferencing source refers to, in the order of the scan.\<close>

fun references :: "byte list \<Rightarrow> nat list" where
  "references (a # d # rest) =
     (if a = 92 \<and> is_digit d then (unat d - 48) # references rest else references (d # rest))"
| "references xs = []"

text \<open>
  The literal library with octal escapes: a backslash followed by three octal digits
  stands for the byte with that value, as in Oniguruma.
\<close>

fun lit_unescape :: "byte list \<Rightarrow> byte list" where
  "lit_unescape (c # x # y # z # rest) =
     (if c = 92 \<and> 48 \<le> x \<and> x \<le> 55 \<and> 48 \<le> y \<and> y \<le> 55 \<and> 48 \<le> z \<and> z \<le> 55
      then (64 * (x - 48) + 8 * (y - 48) + (z - 48)) # lit_unescape rest
      else c # lit_unescape (x # y # z # rest))"
| "lit_unescape (c # rest) = c # lit_unescape rest"
| "lit_unescape [] = []"

definition oct_lib :: "lit_regions onig" where
  "oct_lib = lit_lib\<lparr> onig_match := (\<lambda>re. lit_at (lit_unescape re)),
                        onig_search := (\<lambda>re. lit_search (lit_unescape re)) \<rparr>"

text \<open>
  \<open>whileRefGrammar\<close>: in the start state \<open>yx\<close> is a \<open>MATCH\<close> rule (scope 9 on the
  match) and \<open>x\<close> opens state 1 (outer scope 1). State 1 has no end pattern and no
  rule; its while pattern is the backreferencing pattern \<open>\0\<close>, the text of the begin
  match.
\<close>

definition whileRefGrammar :: grammar where
  "whileRefGrammar =
     \<lparr> g_pattern = (\<lambda>p. if p = 0 then lit_pattern [120] 1 0
                         else if p = 1 then the (createBackreferencingPattern oct_lib [92, 48])
                         else lit_pattern [121, 120] 0 9),
       g_state = (\<lambda>h. if h = 0
                       then \<lparr> s_whilePattern = None, s_endPattern = None,
                              s_applyEndPatternLast = False,
                              s_patterns = [MATCH 2, BEGIN 0 1] \<rparr>
                       else \<lparr> s_whilePattern = Some 1, s_endPattern = None,
                              s_applyEndPatternLast = False, s_patterns = [] \<rparr>) \<rparr>"


text \<open>
  \<open>clearGrammar\<close>: the start state has the \<open>MATCH\<close> rules \<open>ab\<close>, whose match is
  rendered in state 1 (\<open>setCaptureState\<close> for the name \<open>0\<close>), and \<open>x\<close> (scope 9 on
  the match); state 1 opens the start state again on \<open>a\<close> (outer scope 7, scope 4 on
  the match).
\<close>

definition clearGrammar :: grammar where
  "clearGrammar =
     \<lparr> g_pattern = (\<lambda>p. if p = 0
                         then setCaptureState lit_lib (the (createPattern lit_lib [97, 98])) [48]
                                (Some 1)
                         else if p = 1 then lit_pattern [97] 7 4
                         else lit_pattern [120] 0 9),
       g_state = (\<lambda>h. if h = 0
                       then \<lparr> s_whilePattern = None, s_endPattern = None,
                              s_applyEndPatternLast = False, s_patterns = [MATCH 0, MATCH 2] \<rparr>
                       else \<lparr> s_whilePattern = None, s_endPattern = None,
                              s_applyEndPatternLast = False, s_patterns = [BEGIN 1 0] \<rparr>) \<rparr>"

section \<open>Verified properties\<close>

subsection \<open>Unfolding the renderer\<close>

lemma render_Suc:
  "renderCaptures (Suc n) lib g = renderCaptures_body (renderCaptures n lib g) (renderLine n lib g) lib g"
  "whileLoop (Suc n) lib g = whileLoop_body (whileLoop n lib g) (renderCaptures n lib g) lib g"
  "dispatchLoop (Suc n) lib g = dispatchLoop_body (dispatchLoop n lib g) (renderCaptures n lib g) lib g"
  "renderLine (Suc n) lib g = renderLine_body (whileLoop n lib g) (dispatchLoop n lib g) g"
  by (simp_all add: renderCaptures_def whileLoop_def dispatchLoop_def renderLine_def
      split: prod.splits)

lemma render_0:
  "renderCaptures 0 lib g st p ref i = None"
  "whileLoop 0 lib g st e i off = None"
  "dispatchLoop 0 lib g st e sb off mo mwp = None"
  "renderLine 0 lib g st b e sb = None"
  by (simp_all add: renderCaptures_def whileLoop_def dispatchLoop_def renderLine_def)

lemma render_unfold:
  "0 < n \<Longrightarrow> renderCaptures n lib g st p ref i =
     renderCaptures_body (renderCaptures (n - 1) lib g) (renderLine (n - 1) lib g) lib g st p ref i"
  "0 < n \<Longrightarrow> whileLoop n lib g st e i off =
     whileLoop_body (whileLoop (n - 1) lib g) (renderCaptures (n - 1) lib g) lib g st e i off"
  "0 < n \<Longrightarrow> dispatchLoop n lib g st e sb off mo mwp =
     dispatchLoop_body (dispatchLoop (n - 1) lib g) (renderCaptures (n - 1) lib g) lib g st e sb off mo mwp"
  "0 < n \<Longrightarrow> renderLine n lib g st b e sb =
     renderLine_body (whileLoop (n - 1) lib g) (dispatchLoop (n - 1) lib g) g st b e sb"
  by (cases n; simp add: render_Suc)+

lemma rs_lib_setFrame: "rs_lib (setFrame st i a) = rs_lib st"
  by (simp add: setFrame_def)


lemma dispatchLoop_searches:
  assumes "matchesWithoutProgress < 32"
    and "r_stack (rs_r st) \<noteq> []"
    and "a_s (last (r_stack (rs_r st))) = Some h"
  shows "dispatchLoop (Suc n) lib g st end stackBase offset maxOffset matchesWithoutProgress =
     (if regularWins (s_applyEndPatternLast (g_state g h)) (fst (endSearch lib g st h offset end))
           (snd (regsetSearch lib g st h offset end)) then
        (case snd (regsetSearch lib g st h offset end) of
           None \<Rightarrow> None
         | Some (i, matchpos) \<Rightarrow>
             applyRegular (dispatchLoop n lib g) (renderCaptures n lib g) lib g
               (afterSearches lib g st h offset end) h i end stackBase maxOffset
               matchesWithoutProgress)
      else
        (case fst (endSearch lib g st h offset end) of
           None \<Rightarrow> Some (afterSearches lib g st h offset end)
         | Some endWhileRegion \<Rightarrow>
             (case s_endPattern (g_state g h) of
                None \<Rightarrow> None
              | Some e \<Rightarrow>
                  applyEnd (dispatchLoop n lib g) (renderCaptures n lib g) g
                    (afterSearches lib g st h offset end) (last (r_stack (rs_r st))) e
                    endWhileRegion end stackBase maxOffset matchesWithoutProgress)))"
  using assms
  by (simp add: render_Suc dispatchLoop_body_def endSearch_def regsetSearch_def
      afterSearches_def Let_def rs_lib_setFrame split: option.splits prod.splits)

lemmas model_defs =
  renderCaptures_body_def whileLoop_body_def dispatchLoop_body_def renderLine_body_def
  applyRegular_def applyEnd_def regularWins_def beginFrame_def addOpenScopes_def addOpenScope_def
  emitRange_def popTo_def pushFrame_def setFrame_def lineSubject_def captureState_def
  captureScope_def addScopeRange_def addScope_def popStack_def region_beg_def region_end_def
  size_add_def backreferencingSearch_def regset_def STACK_SIZE_def zeroFrame_def
  createRenderer_def renderNextLine_def qsort_def compareScopes_def advanceToNextLine.simps

lemmas lit_defs =
  lit_lib_def lit_search_def lit_at_def lit_regset_search_def lit_get_region_def
  createPattern_def lit_pattern_def setCaptureScope_def setOuterScope_def captureNameToInt_def
  captureNameStep_def INT_MAX_def start_def emptyLine_def ptr_diff_def


lemmas search_defs = endSearch_def regsetSearch_def afterSearches_def

lemma replicate_update_same: "(replicate n x)[i := x] = replicate n x"
  by (induction n arbitrary: i) (simp_all split: nat.splits)

lemma funpow_fixed: "f y = y \<Longrightarrow> (f ^^ n) y = y"
  by (induction n) simp_all


subsection \<open>Capture names\<close>

text \<open>
  C10. The claim: a capture name made of decimal digits whose value is not a group
  number of the pattern leaves \<open>captureScopes\<close> and \<open>captureStates\<close> unchanged. The
  name \<open>4294967296\<close> (\<open>2 ^ 32\<close>) is such a name for a pattern with the single group 0,
  but the \<open>uint32_t\<close> accumulator of \<open>captureNameToInt\<close> wraps to 0, the test against
  \<open>INT_MAX\<close> passes, and both functions write entry 0.
\<close>

theorem capture_name_wraps_to_group_0:
  "captureNameToInt [52, 50, 57, 52, 57, 54, 55, 50, 57, 54] = 0 \<and>
   p_captureScopes (the (createPattern lit_lib [97])) = [0] \<and>
   p_captureScopes
     (setCaptureScope lit_lib (the (createPattern lit_lib [97]))
        [52, 50, 57, 52, 57, 54, 55, 50, 57, 54] 7) = [7] \<and>
   p_captureStates (the (createPattern lit_lib [97])) = [None] \<and>
   p_captureStates
     (setCaptureState lit_lib (the (createPattern lit_lib [97]))
        [52, 50, 57, 52, 57, 54, 55, 50, 57, 54] (Some 3)) = [Some 3]"
  by (simp add: setCaptureScope_def setCaptureState_def createPattern_def lit_lib_def
      captureNameToInt_def captureNameStep_def INT_MAX_def)

subsection \<open>Compiling a backreferencing pattern\<close>

lemma takeOutStep_at:
  "takeOutStep (length pre) (pre @ a # b # rest, f) =
     (pre @ (if a = 92 \<and> is_digit b then 48 else a) # b # rest, f \<or> (a = 92 \<and> is_digit b))"
  by (auto simp add: takeOutStep_def is_digit_def nth_append)

lemma takeOut_fold:
  "fold takeOutStep [length pre ..< length pre + (length xs - 1)] (pre @ xs, f) =
     (pre @ blankBackslashes xs, f \<or> hasBackreference xs)"
proof (induction xs arbitrary: pre f rule: blankBackslashes.induct)
  case (1 a b rest)
  let ?a' = "if a = 92 \<and> is_digit b then 48 else a"
  let ?f' = "f \<or> (a = 92 \<and> is_digit b)"
  let ?U' = "[length (pre @ [?a']) ..< length (pre @ [?a']) + (length (b # rest) - 1)]"
  have upt: "[length pre ..< length pre + (length (a # b # rest) - 1)] = length pre # ?U'"
    by (subst upt_rec) simp
  have "fold takeOutStep [length pre ..< length pre + (length (a # b # rest) - 1)]
          (pre @ a # b # rest, f) =
        fold takeOutStep ?U' (takeOutStep (length pre) (pre @ a # b # rest, f))"
    by (simp only: upt fold_simps)
  also have "\<dots> = fold takeOutStep ?U' ((pre @ [?a']) @ b # rest, ?f')"
    by (simp only: takeOutStep_at append_assoc append_Cons append_Nil)
  also have "\<dots> = ((pre @ [?a']) @ blankBackslashes (b # rest), ?f' \<or> hasBackreference (b # rest))"
    by (rule "1.IH")
  also have "\<dots> = (pre @ blankBackslashes (a # b # rest), f \<or> hasBackreference (a # b # rest))"
    by simp
  finally show ?case .
qed simp_all

lemma takeOutBackreferences_eq:
  "takeOutBackreferences regex = (blankBackslashes regex, hasBackreference regex)"
  using takeOut_fold [of "[]" regex False] by (simp add: takeOutBackreferences_def)

lemma blankBackslashes_id: "\<not> hasBackreference xs \<Longrightarrow> blankBackslashes xs = xs"
  by (induction xs rule: blankBackslashes.induct) auto

text \<open>
  C5, as the code has it. When the source has a backslash followed by a digit,
  \<open>createBackreferencingPattern\<close> compiles the copy in which every such backslash
  (not the digit) is replaced with \<open>'0'\<close>; when that compiles, the pattern is marked
  backreferencing and keeps the original bytes and their length. When the source has no
  such pair the result is that of \<open>createPattern\<close> on the source, with no text kept.
\<close>

theorem createBackreferencingPattern_blanks_backslashes:
  "createBackreferencingPattern lib regex =
     (if hasBackreference regex
      then map_option
             (\<lambda>p. p\<lparr> p_backreferencingPattern := True, p_text := Some regex,
                      p_len := length regex \<rparr>)
             (createPattern lib (blankBackslashes regex))
      else createPattern lib regex)"
  by (simp add: createBackreferencingPattern_def takeOutBackreferences_eq blankBackslashes_id
      split: option.splits)

text \<open>
  C5 as stated fails on the source \<open>\3\<close>: the text compiled is \<open>03\<close>, not \<open>\0\<close>.
\<close>

theorem backslash_3_compiled_as_03:
  "p_re (the (createBackreferencingPattern lit_lib [92, 51])) = [48, 51] \<and>
   p_re (the (createBackreferencingPattern lit_lib [92, 51])) \<noteq> [92, 48]"
  by (simp add: createBackreferencingPattern_def takeOutBackreferences_eq is_digit_def
      createPattern_def lit_lib_def)

subsection \<open>The first line\<close>

lemma advanceToNextLine_terminator:
  "c = 10 \<or> c = 13 \<Longrightarrow>
   snd (advanceToNextLine (pre @ c # cs) (length (pre @ c # cs)) (length pre)) =
     length pre + length (firstLine (c # cs))"
  apply (subst advanceToNextLine.simps)
  apply (cases cs)
   apply (auto simp add: nth_append)
  done

lemma advanceToNextLine_other:
  "\<not> (c = 10 \<or> c = 13) \<Longrightarrow>
   snd (advanceToNextLine (pre @ c # cs) (length (pre @ c # cs)) (length pre)) =
     snd (advanceToNextLine (pre @ c # cs) (length (pre @ c # cs)) (Suc (length pre)))"
  apply (subst advanceToNextLine.simps)
  apply (simp add: nth_append)
  done

lemma advanceToNextLine_firstLine:
  "snd (advanceToNextLine (pre @ xs) (length (pre @ xs)) (length pre)) =
     length pre + length (firstLine xs)"
proof (induction xs arbitrary: pre)
  case Nil
  show ?case by (subst advanceToNextLine.simps) simp
next
  case (Cons c cs)
  show ?case
  proof (cases "c = 10 \<or> c = 13")
    case True
    then show ?thesis by (rule advanceToNextLine_terminator)
  next
    case False
    have "snd (advanceToNextLine (pre @ c # cs) (length (pre @ c # cs)) (length pre)) =
          snd (advanceToNextLine ((pre @ [c]) @ cs) (length ((pre @ [c]) @ cs)) (length (pre @ [c])))"
      using advanceToNextLine_other [OF False, of pre cs] by simp
    also have "\<dots> = length (pre @ [c]) + length (firstLine cs)"
      by (rule Cons.IH)
    also have "\<dots> = length pre + length (firstLine (c # cs))"
      using False by simp
    finally show ?thesis .
  qed
qed


lemma firstLine_prefix: "take (length (firstLine xs)) xs = firstLine xs"
proof (induction xs)
  case Nil
  show ?case by simp
next
  case (Cons c cs)
  then show ?case by (cases cs) simp_all
qed

lemma firstLineMatch_firstLine:
  "firstLineMatch lib bytes p = onig_match lib (p_re p) (firstLine bytes) 0"
proof -
  obtain k off where adv: "advanceToNextLine bytes (length bytes) 0 = (k, off)"
    by (cases "advanceToNextLine bytes (length bytes) 0")
  have "off = length (firstLine bytes)"
    using advanceToNextLine_firstLine [of "[]" bytes] adv by simp
  then show ?thesis
    by (simp add: firstLineMatch_def adv firstLine_prefix)
qed

text \<open>
  C9, as the code has it. \<open>firstLineMatch\<close> hands \<open>onig_match\<close> the first line of the
  input together with its terminator, and asks for a match that starts at position 0 of
  it: the result is true exactly when the pattern matches there.
\<close>

theorem firstLineMatch_anchored:
  "firstLineMatch lib bytes p = onig_match lib (p_re p) (firstLine bytes) 0"
  by (rule firstLineMatch_firstLine)

text \<open>
  C9 as stated fails on the input \<open>ab\n\<close> and the pattern \<open>b\<close>: a search of the first
  line \<open>ab\<close> finds the pattern at position 1, and \<open>firstLineMatch\<close> is false.
\<close>

theorem firstLineMatch_misses_later_match:
  "lit_search [98] [97, 98] 0 2 False = Some [(1, 2)] \<and>
   \<not> firstLineMatch lit_lib [97, 98, 10] (the (createPattern lit_lib [98]))"
  by (simp add: firstLineMatch_firstLine lit_search_def lit_at_def lit_lib_def
      createPattern_def upt_rec)

subsection \<open>The dispatch loop: regular rule or end pattern\<close>

text \<open>
  C1, as the code has it. One iteration of the dispatch loop in which the regset
  search succeeded with rule \<open>res\<close> at \<open>matchpos\<close>: the regular rule is applied when the
  end search failed, or \<open>matchpos\<close> is before the start of the end match, or
  \<open>applyEndPatternLast\<close> is set and the two are equal. Otherwise the captures of the
  end pattern are rendered; then, if the stack is no deeper than \<open>stackBase\<close>, the loop
  stops with the frame still on the stack, and else the scope ranges of the frame are
  added, the frame is popped and the loop goes on at the end of the end match.
\<close>

theorem regular_rule_or_end_pattern:
  assumes "matchesWithoutProgress < 32"
    and "r_stack (rs_r st) \<noteq> []"
    and "a_s (last (r_stack (rs_r st))) = Some h"
    and "snd (regsetSearch lib g st h offset lend) = Some (res, matchpos)"
  shows "dispatchLoop (Suc n) lib g st lend stackBase offset maxOffset matchesWithoutProgress =
     (case fst (endSearch lib g st h offset lend) of
        None \<Rightarrow>
          applyRegular (dispatchLoop n lib g) (renderCaptures n lib g) lib g
            (afterSearches lib g st h offset lend) h res lend stackBase maxOffset
            matchesWithoutProgress
      | Some endWhileRegion \<Rightarrow>
          if matchpos < region_beg endWhileRegion 0 \<or>
             (s_applyEndPatternLast (g_state g h) \<and> matchpos = region_beg endWhileRegion 0)
          then
            applyRegular (dispatchLoop n lib g) (renderCaptures n lib g) lib g
              (afterSearches lib g st h offset lend) h res lend stackBase maxOffset
              matchesWithoutProgress
          else
            (case s_endPattern (g_state g h) of
               None \<Rightarrow> None
             | Some e \<Rightarrow>
                 (case renderCaptures n lib g (afterSearches lib g st h offset lend) e
                         (LocalRegion endWhileRegion) 0 of
                    None \<Rightarrow> None
                  | Some st3 \<Rightarrow>
                      if length (r_stack (rs_r st3)) \<le> stackBase then Some st3
                      else
                        (case a_p (last (r_stack (rs_r st))) of
                           None \<Rightarrow> None
                         | Some ap \<Rightarrow>
                             dispatchLoop n lib g
                               (popTo
                                  (emitRange
                                     (emitRange st3 (p_innerScope (g_pattern g ap))
                                        (a_innerSeq (last (r_stack (rs_r st))))
                                        (a_innerBegin (last (r_stack (rs_r st))))
                                        (size_add (l_begin (rs_line st))
                                           (region_beg endWhileRegion 0)))
                                     (p_outerScope (g_pattern g ap))
                                     (a_outerSeq (last (r_stack (rs_r st))))
                                     (a_outerBegin (last (r_stack (rs_r st))))
                                     (size_add (l_begin (rs_line st))
                                        (region_end endWhileRegion 0)))
                                  (length (r_stack (rs_r st3)) - 1))
                               lend stackBase
                               (size_add (l_begin (rs_line st)) (region_end endWhileRegion 0))
                               maxOffset matchesWithoutProgress))))"
  using assms(4)
  by (simp add: dispatchLoop_searches [OF assms(1-3)] regularWins_def applyEnd_def
      afterSearches_def setFrame_def Let_def split: option.splits)

theorem regular_rule_or_end_pattern_witness:
  "map_option view (dispatchLoop (Suc 7) lit_lib (tieGrammar True) tieState 2 1 1 1 0) =
     Some (2, [(5, 1, SCOPE_BEGIN), (5, 2, SCOPE_END)])"
  using regular_rule_or_end_pattern [where matchesWithoutProgress = 0 and st = tieState and h = 1 and
      lib = lit_lib and g = "tieGrammar True" and offset = 1 and lend = 2 and res = 0 and
      matchpos = 1 and n = 7 and stackBase = 1 and maxOffset = 1]
  by (simp add: render_unfold render_0 model_defs lit_defs search_defs tieGrammar_def
      tieState_def view_def Let_def upt_rec)

text \<open>
  C1 as stated fails for a frame at the base of the call. In the start state of
  \<open>baseTieGrammar\<close>, on the input \<open>a\<close>, the regset search succeeds with rule 0 at
  offset 0 and the end search succeeds at the same offset; the flag is not set, so the
  end pattern is applied: its captures are rendered (scope 6, not scope 5 of the rule),
  and the frame is not popped: the stack still holds it when the line is done.
\<close>

theorem base_frame_not_popped:
  "snd (regsetSearch lit_lib baseTieGrammar baseTieState 0 0 1) = Some (0, 0) \<and>
   fst (endSearch lit_lib baseTieGrammar baseTieState 0 0 1) = Some [(0, 1)] \<and>
   s_applyEndPatternLast (g_state baseTieGrammar 0) = False \<and>
   map_option view (dispatchLoop 5 lit_lib baseTieGrammar baseTieState 1 1 0 0 0) =
     Some (1, [(6, 0, SCOPE_BEGIN), (6, 1, SCOPE_END)]) \<and>
   map_option (map_option view) (renderNextLine 5 lit_lib baseTieGrammar (start [97])) =
     Some (Some (1, [(6, 0, SCOPE_BEGIN), (6, 1, SCOPE_END)]))"
  by (simp add: render_unfold render_0 model_defs lit_defs search_defs baseTieGrammar_def
      baseTieState_def view_def Let_def upt_rec)

subsection \<open>The dispatch loop: a tie between a rule and the end pattern\<close>

text \<open>
  C2, as the code has it. When a rule of the state and its end pattern match at the
  same position, the rule is applied if \<open>applyEndPatternLast\<close> is set, and the end
  pattern is applied (\<open>applyEnd\<close>: its captures are rendered and the frame, when above
  the base of the call, is popped) if it is not set.
\<close>

theorem tie_goes_to_flag:
  assumes "matchesWithoutProgress < 32"
    and "r_stack (rs_r st) \<noteq> []"
    and "a_s (last (r_stack (rs_r st))) = Some h"
    and "s_endPattern (g_state g h) = Some e"
    and "fst (endSearch lib g st h offset lend) = Some endWhileRegion"
    and "snd (regsetSearch lib g st h offset lend) = Some (res, region_beg endWhileRegion 0)"
  shows "dispatchLoop (Suc n) lib g st lend stackBase offset maxOffset matchesWithoutProgress =
     (if s_applyEndPatternLast (g_state g h)
      then applyRegular (dispatchLoop n lib g) (renderCaptures n lib g) lib g
             (afterSearches lib g st h offset lend) h res lend stackBase maxOffset
             matchesWithoutProgress
      else applyEnd (dispatchLoop n lib g) (renderCaptures n lib g) g
             (afterSearches lib g st h offset lend) (last (r_stack (rs_r st))) e
             endWhileRegion lend stackBase maxOffset matchesWithoutProgress)"
  using assms(4-6)
  by (simp add: dispatchLoop_searches [OF assms(1-3)] regularWins_def)

theorem tie_goes_to_flag_witness:
  "map_option view (dispatchLoop (Suc 7) lit_lib (tieGrammar False) tieState 2 1 1 1 0) =
     Some (1, [(7, 0, SCOPE_BEGIN), (7, 2, SCOPE_END)])"
  using tie_goes_to_flag [where matchesWithoutProgress = 0 and st = tieState and h = 1 and
      g = "tieGrammar False" and e = 2 and lib = lit_lib and offset = 1 and lend = 2 and
      endWhileRegion = "[(1, 2)]" and res = 0 and n = 7 and stackBase = 1 and maxOffset = 1]
  by (simp add: render_unfold render_0 model_defs lit_defs search_defs tieGrammar_def
      tieState_def view_def Let_def upt_rec)

text \<open>
  C2 as stated has the flag the wrong way round. On the input \<open>(a\<close>, where the rule
  \<open>a\<close> (scope 5) and the end pattern \<open>a\<close> of state 1 both match at offset 1: without
  the flag the frame is popped and scope 5 is not emitted, with the flag scope 5 is
  emitted and the frame stays.
\<close>

theorem tie_default_pops:
  "map_option (map_option view) (renderNextLine 8 lit_lib (tieGrammar False) (start [40, 97])) =
     Some (Some (1, [(7, 0, SCOPE_BEGIN), (7, 2, SCOPE_END)])) \<and>
   map_option (map_option view) (renderNextLine 8 lit_lib (tieGrammar True) (start [40, 97])) =
     Some (Some (2, [(7, 0, SCOPE_BEGIN), (5, 1, SCOPE_BEGIN), (5, 2, SCOPE_END),
                     (7, 2, SCOPE_END)]))"
  by (simp add: render_unfold render_0 model_defs lit_defs tieGrammar_def view_def Let_def
      upt_rec)

subsection \<open>A \<open>BEGIN\<close> rule on a full stack\<close>

text \<open>
  C6, as the code has it. When a \<open>BEGIN\<close> rule wins and the stack holds 256 frames
  once its captures have been rendered, the dispatch loop ends there: its result is the
  state \<open>renderCaptures\<close> returned, with the capture scopes emitted, no frame pushed
  and nothing more of the line matched.
\<close>

theorem begin_on_full_stack:
  assumes "matchesWithoutProgress < 32"
    and "r_stack (rs_r st) \<noteq> []"
    and "a_s (last (r_stack (rs_r st))) = Some h"
    and "regularWins (s_applyEndPatternLast (g_state g h)) (fst (endSearch lib g st h offset lend))
           (snd (regsetSearch lib g st h offset lend))"
    and "snd (regsetSearch lib g st h offset lend) = Some (res, matchpos)"
    and "s_patterns (g_state g h) ! res = BEGIN p to"
    and "map_option (\<lambda>st3. length (r_stack (rs_r st3)))
           (renderCaptures n lib g (afterSearches lib g st h offset lend) p (RegsetRegion h res) 0) =
         Some STACK_SIZE"
  shows "dispatchLoop (Suc n) lib g st lend stackBase offset maxOffset matchesWithoutProgress =
     renderCaptures n lib g (afterSearches lib g st h offset lend) p (RegsetRegion h res) 0"
  using assms(4-7)
  by (auto simp add: dispatchLoop_searches [OF assms(1-3)] applyRegular_def Let_def
      split: option.splits)

theorem begin_on_full_stack_witness:
  "map_option view (dispatchLoop (Suc 7) lit_lib deepGrammar (deepState 255) 2 1 0 0 0) =
     Some (256, [(8, 0, SCOPE_BEGIN), (8, 1, SCOPE_END)])"
  using begin_on_full_stack [where matchesWithoutProgress = 0 and st = "deepState 255" and h = 0 and
      g = deepGrammar and lib = lit_lib and offset = 0 and lend = 2 and res = 0 and matchpos = 0 and
      p = 0 and to = 0 and n = 7 and stackBase = 1 and maxOffset = 0]
  by (simp add: render_unfold render_0 model_defs lit_defs search_defs deepGrammar_def
      deepState_def view_def Let_def upt_rec nth_Cons' nth_append replicate_update_same
      funpow_fixed)

text \<open>
  C6 as stated fails on the input \<open>ab\<close> with 256 frames on the stack: \<open>a\<close> wins as a
  \<open>BEGIN\<close> rule, its scope 8 is emitted, and the line yields nothing else. Going on
  from offset 1 with the same stack would have matched the rule \<open>b\<close> and emitted
  scope 9.
\<close>

theorem full_stack_halts_line:
  "map_option view (renderLine 300 lit_lib deepGrammar (deepState 255) 0 2 1) =
     Some (256, [(8, 0, SCOPE_BEGIN), (8, 1, SCOPE_END)]) \<and>
   map_option view (dispatchLoop 300 lit_lib deepGrammar (deepState 255) 2 1 1 1 0) =
     Some (256, [(9, 1, SCOPE_BEGIN), (9, 2, SCOPE_END)])"
  by (simp add: render_unfold render_0 model_defs lit_defs deepGrammar_def deepState_def view_def Let_def upt_rec
       nth_Cons' nth_append replicate_update_same funpow_fixed)

subsection \<open>What rendering does to the line\<close>

text \<open>
  The line is only ever changed through \<open>addScopeRange\<close>, so a property that
  \<open>addScopeRange\<close> keeps is kept by \<open>renderLine\<close>, whatever the grammar and the
  library do.
\<close>

lemma rs_line_simps:
  "rs_line (pushFrame st a) = rs_line st"
  "rs_line (popTo st d) = rs_line st"
  "rs_line (setFrame st i a) = rs_line st"
  "rs_line (emitRange st name seq b e) = addScopeRange (rs_line st) name seq b e"
  by (simp_all add: pushFrame_def popTo_def setFrame_def emitRange_def)

lemma lineClosedD: "lineClosed Q \<Longrightarrow> Q ln \<Longrightarrow> Q (addScopeRange ln name seq b e)"
  by (simp add: lineClosed_def)

lemma renderCaptures_body_line:
  assumes Q: "lineClosed Q"
    and rc: "\<And>st p ref i st'. rc st p ref i = Some st' \<Longrightarrow> Q (rs_line st) \<Longrightarrow> Q (rs_line st')"
    and rl: "\<And>st b e sb st'. rl st b e sb = Some st' \<Longrightarrow> Q (rs_line st) \<Longrightarrow> Q (rs_line st')"
    and run: "renderCaptures_body rc rl lib g st p ref i = Some st'"
    and pre: "Q (rs_line st)"
  shows "Q (rs_line st')"
proof -
  let ?region = "getRegion lib (rs_lib st) ref"
  show ?thesis
  proof (cases "i < length ?region")
    case False
    with run pre show ?thesis by (simp add: renderCaptures_body_def Let_def)
  next
    case inr: True
    show ?thesis
    proof (cases "region_beg ?region i < 0")
      case True
      with run inr have "rc st p ref (i + 1) = Some st'"
        by (simp add: renderCaptures_body_def Let_def)
      then show ?thesis using pre by (rule rc)
    next
      case nb: False
      show ?thesis
      proof (cases "captureScope (g_pattern g p) i \<noteq> 0")
        case True
        let ?st1 = "(emitRange st (captureScope (g_pattern g p) i) (r_seq (rs_r st))
                 (size_add (l_begin (rs_line st)) (region_beg ?region i))
                 (size_add (l_begin (rs_line st)) (region_end ?region i)))
              \<lparr> rs_r := (rs_r st)\<lparr> r_seq := r_seq (rs_r st) + 1 \<rparr> \<rparr>"
        from run inr nb True have "rc ?st1 p ref (i + 1) = Some st'"
          by (simp add: renderCaptures_body_def Let_def)
        moreover have "Q (rs_line ?st1)"
          using pre by (simp add: rs_line_simps lineClosedD [OF Q])
        ultimately show ?thesis by (rule rc)
      next
        case ns: False
        show ?thesis
        proof (cases "captureState (g_pattern g p) i")
          case None
          with run inr nb ns have "rc st p ref (i + 1) = Some st'"
            by (simp add: renderCaptures_body_def Let_def)
          then show ?thesis using pre by (rule rc)
        next
          case (Some cs)
          show ?thesis
          proof (cases "length (r_stack (rs_r st)) = STACK_SIZE")
            case True
            with run inr nb ns Some have "rc st p ref (i + 1) = Some st'"
              by (simp add: renderCaptures_body_def Let_def)
            then show ?thesis using pre by (rule rc)
          next
            case False
            let ?call = "rl (pushFrame st (zeroFrame\<lparr> a_s := Some cs \<rparr>))
                          (size_add (l_begin (rs_line st)) (region_beg ?region i))
                          (size_add (l_begin (rs_line st)) (region_end ?region i))
                          (length (r_stack (rs_r st)) + 1)"
            from run inr nb ns Some False obtain st1 where
              call: "?call = Some st1" and
              rest: "rc (popTo st1 (length (r_stack (rs_r st)))) p ref (i + 1) = Some st'"
              by (auto simp add: renderCaptures_body_def Let_def split: option.splits)
            have "Q (rs_line st1)"
              using call pre by (auto intro: rl simp add: rs_line_simps)
            then have "Q (rs_line (popTo st1 (length (r_stack (rs_r st)))))"
              by (simp add: rs_line_simps)
            with rest show ?thesis by (rule rc)
          qed
        qed
      qed
    qed
  qed
qed


lemma whileLoop_body_line:
  assumes Q: "lineClosed Q"
    and wl: "\<And>st e i off st' off'. wl st e i off = Some (st', off') \<Longrightarrow> Q (rs_line st) \<Longrightarrow> Q (rs_line st')"
    and rc: "\<And>st p ref i st'. rc st p ref i = Some st' \<Longrightarrow> Q (rs_line st) \<Longrightarrow> Q (rs_line st')"
    and run: "whileLoop_body wl rc lib g st e i off = Some (st', off')"
    and pre: "Q (rs_line st)"
  shows "Q (rs_line st')"
  using run pre
  apply (simp add: whileLoop_body_def Let_def split: if_splits option.splits prod.splits)
       apply (auto simp add: rs_line_simps dest!: rc wl)
  done

lemma applyRegular_line:
  assumes Q: "lineClosed Q"
    and dl: "\<And>st e sb off mo mwp st'. dl st e sb off mo mwp = Some st' \<Longrightarrow> Q (rs_line st) \<Longrightarrow> Q (rs_line st')"
    and rc: "\<And>st p ref i st'. rc st p ref i = Some st' \<Longrightarrow> Q (rs_line st) \<Longrightarrow> Q (rs_line st')"
    and run: "applyRegular dl rc lib g st h res e sb mo mwp = Some st'"
    and pre: "Q (rs_line st)"
  shows "Q (rs_line st')"
  using run pre
  apply (simp add: applyRegular_def Let_def split: if_splits option.splits patternInState.splits)
       apply (auto simp add: rs_line_simps dest!: rc dl)
  done

lemma applyEnd_line:
  assumes Q: "lineClosed Q"
    and dl: "\<And>st e sb off mo mwp st'. dl st e sb off mo mwp = Some st' \<Longrightarrow> Q (rs_line st) \<Longrightarrow> Q (rs_line st')"
    and rc: "\<And>st p ref i st'. rc st p ref i = Some st' \<Longrightarrow> Q (rs_line st) \<Longrightarrow> Q (rs_line st')"
    and run: "applyEnd dl rc g st a ep er e sb mo mwp = Some st'"
    and pre: "Q (rs_line st)"
  shows "Q (rs_line st')"
  using run pre
  apply (simp add: applyEnd_def Let_def split: if_splits option.splits)
       apply (auto simp add: rs_line_simps lineClosedD [OF Q] dest!: rc dl)
  done

lemma rs_line_lib_update: "rs_line (st\<lparr> rs_lib := l \<rparr>) = rs_line st"
  by simp

lemma dispatchLoop_body_line:
  assumes Q: "lineClosed Q"
    and dl: "\<And>st e sb off mo mwp st'. dl st e sb off mo mwp = Some st' \<Longrightarrow> Q (rs_line st) \<Longrightarrow> Q (rs_line st')"
    and rc: "\<And>st p ref i st'. rc st p ref i = Some st' \<Longrightarrow> Q (rs_line st) \<Longrightarrow> Q (rs_line st')"
    and run: "dispatchLoop_body dl rc lib g st e sb off mo mwp = Some st'"
    and pre: "Q (rs_line st)"
  shows "Q (rs_line st')"
proof -
  have reg: "\<And>st2 h res. applyRegular dl rc lib g st2 h res e sb mo mwp = Some st' \<Longrightarrow>
      Q (rs_line st2) \<Longrightarrow> Q (rs_line st')"
    by (rule applyRegular_line [OF Q dl rc])
  have en: "\<And>st2 a ep er. applyEnd dl rc g st2 a ep er e sb mo mwp = Some st' \<Longrightarrow>
      Q (rs_line st2) \<Longrightarrow> Q (rs_line st')"
    by (rule applyEnd_line [OF Q dl rc])
  show ?thesis
    using run pre
    apply (simp add: dispatchLoop_body_def Let_def split: if_splits option.splits prod.splits)
      apply (auto simp add: rs_line_simps dest!: reg en)
    done
qed

lemma addOpenScope_line: "lineClosed Q \<Longrightarrow> Q ln \<Longrightarrow> Q (addOpenScope g e a ln)"
  by (simp add: addOpenScope_def lineClosedD split: option.splits)

lemma fold_addOpenScope_line: "lineClosed Q \<Longrightarrow> Q ln \<Longrightarrow> Q (fold (addOpenScope g e) fs ln)"
  by (induction fs arbitrary: ln) (simp_all add: addOpenScope_line)

lemma renderLine_body_line:
  assumes Q: "lineClosed Q"
    and wl: "\<And>st e i off st' off'. wl st e i off = Some (st', off') \<Longrightarrow> Q (rs_line st) \<Longrightarrow> Q (rs_line st')"
    and dl: "\<And>st e sb off mo mwp st'. dl st e sb off mo mwp = Some st' \<Longrightarrow> Q (rs_line st) \<Longrightarrow> Q (rs_line st')"
    and run: "renderLine_body wl dl g st b e sb = Some st'"
    and pre: "Q (rs_line st)"
  shows "Q (rs_line st')"
  using run pre
  apply (simp add: renderLine_body_def split: if_splits option.splits prod.splits)
  apply (auto simp add: addOpenScopes_def fold_addOpenScope_line [OF Q] dest!: wl dl)
  done

lemma keepsLineD:
  assumes "keepsLine Q n lib g"
  shows "renderCaptures n lib g st p ref i = Some st' \<Longrightarrow> Q (rs_line st) \<Longrightarrow> Q (rs_line st')"
    and "whileLoop n lib g st e i off = Some (st', off') \<Longrightarrow> Q (rs_line st) \<Longrightarrow> Q (rs_line st')"
    and "dispatchLoop n lib g st e sb off mo mwp = Some st' \<Longrightarrow> Q (rs_line st) \<Longrightarrow> Q (rs_line st')"
    and "renderLine n lib g st b e sb = Some st' \<Longrightarrow> Q (rs_line st) \<Longrightarrow> Q (rs_line st')"
  using assms unfolding keepsLine_def by metis+

lemma keepsLine_all: "lineClosed Q \<Longrightarrow> keepsLine Q n lib g"
proof (induction n)
  case 0
  show ?case by (simp add: keepsLine_def render_0)
next
  case (Suc n)
  from Suc have IH: "keepsLine Q n lib g" by simp
  note rc = keepsLineD(1) [OF IH] and wl = keepsLineD(2) [OF IH]
    and dl = keepsLineD(3) [OF IH] and rl = keepsLineD(4) [OF IH]
  have 1: "\<And>st p ref i st'. renderCaptures (Suc n) lib g st p ref i = Some st' \<Longrightarrow>
      Q (rs_line st) \<Longrightarrow> Q (rs_line st')"
    unfolding render_Suc by (rule renderCaptures_body_line [OF Suc.prems rc rl])
  have 2: "\<And>st e i off st' off'. whileLoop (Suc n) lib g st e i off = Some (st', off') \<Longrightarrow>
      Q (rs_line st) \<Longrightarrow> Q (rs_line st')"
    unfolding render_Suc by (rule whileLoop_body_line [OF Suc.prems wl rc])
  have 3: "\<And>st e sb off mo mwp st'. dispatchLoop (Suc n) lib g st e sb off mo mwp = Some st' \<Longrightarrow>
      Q (rs_line st) \<Longrightarrow> Q (rs_line st')"
    unfolding render_Suc by (rule dispatchLoop_body_line [OF Suc.prems dl rc])
  have 4: "\<And>st b e sb st'. renderLine (Suc n) lib g st b e sb = Some st' \<Longrightarrow>
      Q (rs_line st) \<Longrightarrow> Q (rs_line st')"
    unfolding render_Suc by (rule renderLine_body_line [OF Suc.prems wl dl])
  show ?case
    unfolding keepsLine_def using 1 2 3 4 by (intro conjI allI impI) assumption+
qed

lemma renderLine_keeps_line:
  "lineClosed Q \<Longrightarrow> renderLine n lib g st b e sb = Some st' \<Longrightarrow> Q (rs_line st) \<Longrightarrow> Q (rs_line st')"
  by (rule keepsLineD(4) [OF keepsLine_all])


subsection \<open>Lines of length 0\<close>

lemma addScopeRange_empty: "l_begin ln = l_end ln \<Longrightarrow> addScopeRange ln name seq b e = ln"
  by (simp add: addScopeRange_def Let_def)

lemma lineClosed_same: "l_begin ln0 = l_end ln0 \<Longrightarrow> lineClosed (\<lambda>ln. ln = ln0)"
  by (simp add: lineClosed_def addScopeRange_empty)

lemma renderLine_empty_line:
  assumes "renderLine n lib g st b e sb = Some st'" and "l_begin (rs_line st) = l_end (rs_line st)"
  shows "rs_line st' = rs_line st"
  using renderLine_keeps_line [OF lineClosed_same [OF assms(2)] assms(1)] by simp

lemma qsort_Nil: "qsort [] = []"
  by (simp add: qsort_def)

text \<open>
  C7, as the code has it. When the next line has length 0 (its terminator stands at
  the renderer's offset), \<open>renderNextLine\<close> hands back a line without any scope event:
  every range, also that of an open frame, is empty once clamped to the line.
\<close>

theorem empty_line_no_events:
  assumes "renderNextLine n lib g st = Some (Some st')"
    and "fst (advanceToNextLine (r_bytes (rs_r st)) (length (r_bytes (rs_r st)))
           (r_offset (rs_r st))) = r_offset (rs_r st)"
  shows "l_scopes (rs_line st') = [] \<and> l_begin (rs_line st') = l_end (rs_line st')"
proof -
  obtain k off where adv: "advanceToNextLine (r_bytes (rs_r st)) (length (r_bytes (rs_r st)))
           (r_offset (rs_r st)) = (k, off)"
    by (cases "advanceToNextLine (r_bytes (rs_r st)) (length (r_bytes (rs_r st))) (r_offset (rs_r st))")
  with assms(2) have k: "k = r_offset (rs_r st)" by simp
  let ?st0 = "st\<lparr> rs_r := (rs_r st)\<lparr> r_offset := off \<rparr>,
                  rs_line := (rs_line st)\<lparr> l_scopes := [], l_begin := r_offset (rs_r st),
                               l_end := k, l_endIncludingNewline := off \<rparr> \<rparr>"
  from assms(1) adv obtain st1 where
    run: "renderLine n lib g ?st0 (r_offset (rs_r st)) off 1 = Some st1" and
    st': "st' = st1\<lparr> rs_line := (rs_line st1)\<lparr> l_scopes := qsort (l_scopes (rs_line st1)) \<rparr> \<rparr>"
    by (auto simp add: renderNextLine_def Let_def split: if_splits option.splits)
  have "rs_line st1 = rs_line ?st0"
    using run by (rule renderLine_empty_line) (simp add: k)
  then show ?thesis
    by (simp add: st' qsort_Nil k)
qed

theorem empty_line_no_events_witness:
  "map_option (map_option (\<lambda>s. l_scopes (rs_line s)))
     (renderNextLine 6 lit_lib newlineGrammar (start [10])) = Some (Some [])"
  using empty_line_no_events [of 6 lit_lib newlineGrammar "start [10]"
      "the (the (renderNextLine 6 lit_lib newlineGrammar (start [10])))"]
  by (simp add: render_unfold render_0 model_defs lit_defs newlineGrammar_def Let_def upt_rec)

text \<open>
  C7 as stated fails on the input \<open>\n\<close> with \<open>newlineGrammar\<close>: the line has length 0
  and no event, and the \<open>BEGIN\<close> rule of the start state is matched on its terminator,
  which leaves a second frame on the stack.
\<close>

theorem empty_line_matches_rule:
  "map_option (map_option (\<lambda>s. (view s, l_begin (rs_line s), l_end (rs_line s))))
     (renderNextLine 6 lit_lib newlineGrammar (start [10])) = Some (Some ((2, []), 0, 0))"
  by (simp add: render_unfold render_0 model_defs lit_defs newlineGrammar_def view_def Let_def
      upt_rec)

subsection \<open>The sorted events of a line\<close>

lemma wellPaired_append: "wellPaired xs \<Longrightarrow> wellPaired ys \<Longrightarrow> wellPaired (xs @ ys)"
  by (induction xs rule: wellPaired.induct) simp_all

lemma lineClosed_wellPaired: "lineClosed (\<lambda>ln. wellPaired (l_scopes ln))"
  by (simp add: lineClosed_def addScopeRange_def addScope_def Let_def wellPaired_append)

lemma countBegin_mset: "countBegin es = size (filter_mset isBegin (mset es))"
proof -
  have "isBegin = (\<lambda>e. sc_ty e = SCOPE_BEGIN)" by (auto simp add: isBegin_def)
  then show ?thesis by (simp add: countBegin_def flip: mset_filter)
qed

lemma countEnd_mset: "countEnd es = size (filter_mset isEnd (mset es))"
proof -
  have "isEnd = (\<lambda>e. sc_ty e = SCOPE_END)" by (auto simp add: isEnd_def)
  then show ?thesis by (simp add: countEnd_def flip: mset_filter)
qed

lemma wellPaired_balanced:
  "wellPaired xs \<Longrightarrow> size (filter_mset isBegin (mset xs)) = size (filter_mset isEnd (mset xs))"
  by (induction xs rule: wellPaired.induct) (simp_all add: isBegin_def isEnd_def)

lemma split_prefix:
  assumes "P + S = add_mset b (add_mset e M)"
    and "\<forall>p\<in>#P. \<forall>s\<in>#S. sc_offset p \<le> sc_offset s"
    and "sc_offset b < sc_offset e"
  shows "(\<exists>P'. P = add_mset b (add_mset e P') \<and> P' + S = M) \<or>
         (\<exists>P' S'. P = add_mset b P' \<and> S = add_mset e S' \<and> P' + S' = M) \<or>
         (\<exists>S'. S = add_mset b (add_mset e S') \<and> P + S' = M)"
proof -
  have "b \<in># P + S" using assms(1) by simp
  then consider (bP) "b \<in># P" | (bS) "b \<in># S" by auto
  then show ?thesis
  proof cases
    case bP
    then obtain P1 where P: "P = add_mset b P1" by (meson multi_member_split)
    with assms(1) have 1: "P1 + S = add_mset e M" by simp
    then have "e \<in># P1 + S" by simp
    then consider (eP) "e \<in># P1" | (eS) "e \<in># S" by auto
    then show ?thesis
    proof cases
      case eP
      then obtain P2 where "P1 = add_mset e P2" by (meson multi_member_split)
      with 1 P show ?thesis by simp
    next
      case eS
      then obtain S1 where "S = add_mset e S1" by (meson multi_member_split)
      with 1 P show ?thesis by simp
    qed
  next
    case bS
    then obtain S1 where S: "S = add_mset b S1" by (meson multi_member_split)
    with assms(1) have 1: "P + S1 = add_mset e M" by simp
    then have "e \<in># P + S1" by simp
    then consider (eP) "e \<in># P" | (eS) "e \<in># S1" by auto
    then show ?thesis
    proof cases
      case eP
      with assms(2) bS have "sc_offset e \<le> sc_offset b" by blast
      with assms(3) show ?thesis by simp
    next
      case eS
      then obtain S2 where "S1 = add_mset e S2" by (meson multi_member_split)
      with 1 S show ?thesis by simp
    qed
  qed
qed

lemma prefix_dominance:
  "wellPaired xs \<Longrightarrow> P + S = mset xs \<Longrightarrow> \<forall>p\<in>#P. \<forall>s\<in>#S. sc_offset p \<le> sc_offset s \<Longrightarrow>
   size (filter_mset isEnd P) \<le> size (filter_mset isBegin P)"
proof (induction xs arbitrary: P S rule: wellPaired.induct)
  case 1
  then show ?case by simp
next
  case (2 x)
  then show ?case by simp
next
  case (3 b e rest)
  from "3.prems"(1) have wp: "wellPaired rest" and tb: "isBegin b" and te: "isEnd e"
    and off: "sc_offset b < sc_offset e" by (simp_all add: isBegin_def isEnd_def)
  have nb: "\<not> isEnd b" and ne: "\<not> isBegin e" using tb te by (simp_all add: isBegin_def isEnd_def)
  from "3.prems"(2) have eq: "P + S = add_mset b (add_mset e (mset rest))" by simp
  from split_prefix [OF eq "3.prems"(3) off] show ?case
  proof (elim disjE exE conjE)
    fix P' assume P: "P = add_mset b (add_mset e P')" and r: "P' + S = mset rest"
    have "\<forall>p\<in>#P'. \<forall>s\<in>#S. sc_offset p \<le> sc_offset s" using "3.prems"(3) P by simp
    from "3.IH" [OF wp r this] show ?thesis using P tb te nb ne by simp
  next
    fix P' S' assume P: "P = add_mset b P'" and S: "S = add_mset e S'" and r: "P' + S' = mset rest"
    have "\<forall>p\<in>#P'. \<forall>s\<in>#S'. sc_offset p \<le> sc_offset s" using "3.prems"(3) P S by simp
    from "3.IH" [OF wp r this] show ?thesis using P tb nb by simp
  next
    fix S' assume S: "S = add_mset b (add_mset e S')" and r: "P + S' = mset rest"
    have "\<forall>p\<in>#P. \<forall>s\<in>#S'. sc_offset p \<le> sc_offset s" using "3.prems"(3) S by simp
    from "3.IH" [OF wp r this] show ?thesis .
  qed
qed

lemma wellPaired_partner:
  "wellPaired xs \<Longrightarrow> e \<in> set xs \<Longrightarrow> sc_ty e = SCOPE_END \<Longrightarrow>
   \<exists>b\<in>set xs. sc_ty b = SCOPE_BEGIN \<and> sc_seq b = sc_seq e \<and> sc_offset b < sc_offset e"
  by (induction xs rule: wellPaired.induct) auto


lemma compareScopes_le: "compareScopes x y \<le> 0 \<Longrightarrow> sc_offset x \<le> sc_offset y"
  by (simp add: compareScopes_def Let_def split: if_splits)

lemma compareScopes_gt: "\<not> compareScopes x y \<le> 0 \<Longrightarrow> sc_offset y \<le> sc_offset x"
  by (simp add: compareScopes_def Let_def split: if_splits)

lemma mset_qsort_insert: "mset (qsort_insert x ys) = add_mset x (mset ys)"
  by (induction ys) simp_all

lemma set_qsort_insert: "set (qsort_insert x ys) = insert x (set ys)"
  by (induction ys) auto

lemma sorted_qsort_insert:
  "sorted_wrt (\<lambda>a b. sc_offset a \<le> sc_offset b) ys \<Longrightarrow>
   sorted_wrt (\<lambda>a b. sc_offset a \<le> sc_offset b) (qsort_insert x ys)"
proof (induction ys)
  case Nil
  show ?case by simp
next
  case (Cons y ys)
  show ?case
  proof (cases "compareScopes x y \<le> 0")
    case True
    then have "sc_offset x \<le> sc_offset y" by (rule compareScopes_le)
    with Cons.prems True show ?thesis by (auto intro: order_trans)
  next
    case False
    then have "sc_offset y \<le> sc_offset x" by (rule compareScopes_gt)
    with Cons False show ?thesis by (auto simp add: set_qsort_insert)
  qed
qed

lemma mset_qsort: "mset (qsort xs) = mset xs"
  by (induction xs) (simp_all add: qsort_def mset_qsort_insert)

lemma sorted_qsort: "sorted_wrt (\<lambda>a b. sc_offset a \<le> sc_offset b) (qsort xs)"
  by (induction xs) (simp_all add: qsort_def sorted_qsort_insert)

lemma sorted_take_drop:
  assumes "sorted_wrt R es"
  shows "\<forall>p\<in>set (take k es). \<forall>s\<in>set (drop k es). R p s"
proof -
  have "sorted_wrt R (take k es @ drop k es)" using assms by simp
  then show ?thesis unfolding sorted_wrt_append by blast
qed

lemma sorted_pairs_facts:
  assumes wp: "wellPaired xs"
    and ms: "mset es = mset xs"
    and so: "sorted_wrt (\<lambda>a b. sc_offset a \<le> sc_offset b) es"
  shows "countBegin es = countEnd es"
    and "countEnd (take k es) \<le> countBegin (take k es)"
    and "e \<in> set (take k es) \<Longrightarrow> sc_ty e = SCOPE_END \<Longrightarrow>
         \<exists>b\<in>set (take k es). sc_ty b = SCOPE_BEGIN \<and> sc_seq b = sc_seq e"
proof -
  show "countBegin es = countEnd es"
    using wellPaired_balanced [OF wp] by (simp add: countBegin_mset countEnd_mset ms)
  have cut: "\<forall>p\<in>set (take k es). \<forall>s\<in>set (drop k es). sc_offset p \<le> sc_offset s"
    using so by (rule sorted_take_drop)
  have parts: "mset (take k es) + mset (drop k es) = mset xs"
    using ms by (simp flip: mset_append)
  show "countEnd (take k es) \<le> countBegin (take k es)"
    using prefix_dominance [OF wp parts] cut by (simp add: countBegin_mset countEnd_mset)
  assume e: "e \<in> set (take k es)" and ty: "sc_ty e = SCOPE_END"
  have sets: "set xs = set (take k es) \<union> set (drop k es)"
    using ms by (metis append_take_drop_id set_append set_mset_mset)
  then have "e \<in> set xs" using e by simp
  from wellPaired_partner [OF wp this ty] obtain b where
    b: "b \<in> set xs" "sc_ty b = SCOPE_BEGIN" "sc_seq b = sc_seq e" "sc_offset b < sc_offset e"
    by blast
  have "b \<in> set (take k es)"
  proof (rule ccontr)
    assume "b \<notin> set (take k es)"
    with b(1) sets have "b \<in> set (drop k es)" by simp
    with cut e have "sc_offset e \<le> sc_offset b" by blast
    with b(4) show False by simp
  qed
  with b show "\<exists>b\<in>set (take k es). sc_ty b = SCOPE_BEGIN \<and> sc_seq b = sc_seq e" by blast
qed

lemma renderNextLine_wellPaired:
  assumes "renderNextLine n lib g st = Some (Some st')"
  shows "\<exists>xs. wellPaired xs \<and> l_scopes (rs_line st') = qsort xs"
proof -
  obtain k off where adv: "advanceToNextLine (r_bytes (rs_r st)) (length (r_bytes (rs_r st)))
           (r_offset (rs_r st)) = (k, off)"
    by (cases "advanceToNextLine (r_bytes (rs_r st)) (length (r_bytes (rs_r st))) (r_offset (rs_r st))")
  let ?st0 = "st\<lparr> rs_r := (rs_r st)\<lparr> r_offset := off \<rparr>,
                  rs_line := (rs_line st)\<lparr> l_scopes := [], l_begin := r_offset (rs_r st),
                               l_end := k, l_endIncludingNewline := off \<rparr> \<rparr>"
  from assms adv obtain st1 where
    run: "renderLine n lib g ?st0 (r_offset (rs_r st)) off 1 = Some st1" and
    st': "st' = st1\<lparr> rs_line := (rs_line st1)\<lparr> l_scopes := qsort (l_scopes (rs_line st1)) \<rparr> \<rparr>"
    by (auto simp add: renderNextLine_def Let_def split: if_splits option.splits)
  have "wellPaired (l_scopes (rs_line st1))"
    using renderLine_keeps_line [OF lineClosed_wellPaired run] by simp
  then show ?thesis using st' by auto
qed

text \<open>
  C3, as the code has it. In every line \<open>renderNextLine\<close> hands back, there are as
  many \<open>BEGIN\<close> as \<open>END\<close> events, no prefix of the sorted events has more \<open>END\<close> than
  \<open>BEGIN\<close> events, and every prefix holds, for each \<open>END\<close> event in it, a \<open>BEGIN\<close>
  event with the same \<open>seq\<close>.
\<close>

theorem line_events_balanced:
  assumes "renderNextLine n lib g st = Some (Some st')"
  shows "countBegin (l_scopes (rs_line st')) = countEnd (l_scopes (rs_line st')) \<and>
     (\<forall>k. countEnd (take k (l_scopes (rs_line st'))) \<le> countBegin (take k (l_scopes (rs_line st')))) \<and>
     (\<forall>k. \<forall>e\<in>set (take k (l_scopes (rs_line st'))). sc_ty e = SCOPE_END \<longrightarrow>
        (\<exists>b\<in>set (take k (l_scopes (rs_line st'))). sc_ty b = SCOPE_BEGIN \<and> sc_seq b = sc_seq e))"
proof -
  from renderNextLine_wellPaired [OF assms] obtain xs where
    wp: "wellPaired xs" and es: "l_scopes (rs_line st') = qsort xs" by blast
  note facts = sorted_pairs_facts [OF wp mset_qsort sorted_qsort]
  show ?thesis
    unfolding es using facts by blast
qed

theorem line_events_balanced_witness:
  "map_option (map_option (\<lambda>s. (countBegin (l_scopes (rs_line s)), countEnd (l_scopes (rs_line s)))))
     (renderNextLine 8 lit_lib (tieGrammar True) (start [40, 97])) = Some (Some (2, 2))"
  using line_events_balanced [of 8 lit_lib "tieGrammar True" "start [40, 97]"
      "the (the (renderNextLine 8 lit_lib (tieGrammar True) (start [40, 97])))"]
  by (simp add: render_unfold render_0 model_defs lit_defs tieGrammar_def Let_def upt_rec
      countBegin_def countEnd_def)

text \<open>
  C3 as stated fails: the events need not be nested. With \<open>whileGrammar\<close> on the
  input \<open>ab\nxxwxey\n\<close>, line 2 resumes the outer scope (seq 0) where its while pattern
  is found, at offset 5, inside the scope (seq 2) that is still open from line 1 and
  ends at offset 8: the events are \<open>BEGIN 2, BEGIN 0, END 2, END 0\<close>, and the first
  \<open>END\<close> does not find its own \<open>BEGIN\<close> on top of the stack.
\<close>

theorem line_events_cross:
  "map_option (map_option (\<lambda>s. map (\<lambda>e. (sc_ty e, sc_seq e, sc_offset e)) (l_scopes (rs_line s))))
     (renderNextLine 8 lit_lib whileGrammar
        (the (the (renderNextLine 8 lit_lib whileGrammar
           (start [97, 98, 10, 120, 120, 119, 120, 101, 121, 10]))))) =
     Some (Some [(SCOPE_BEGIN, 2, 3), (SCOPE_BEGIN, 0, 5), (SCOPE_END, 2, 8), (SCOPE_END, 0, 9)]) \<and>
   \<not> wellNested []
       (l_scopes (rs_line (the (the (renderNextLine 8 lit_lib whileGrammar
          (the (the (renderNextLine 8 lit_lib whileGrammar
             (start [97, 98, 10, 120, 120, 119, 120, 101, 121, 10])))))))))"
  by (simp add: render_unfold render_0 model_defs lit_defs whileGrammar_def Let_def upt_rec)

subsection \<open>Backreference expansion\<close>

lemma seven_mask: "(7 :: 'a::len word) = mask 3"
  by (simp add: mask_eq_decr_exp)
lemma o700_mask: "(448 :: 32 word) = push_bit 6 (mask 3)"
  by (simp add: mask_eq_decr_exp)
lemma o070_mask: "(56 :: 32 word) = push_bit 3 (mask 3)"
  by (simp add: mask_eq_decr_exp)

lemma oct6: "drop_bit 6 ((ucast (b :: byte) :: 32 word) AND 448) = ucast (drop_bit 6 b AND 7)"
  unfolding seven_mask o700_mask by (rule bit_word_eqI) (auto simp add: bit_simps)

lemma oct3: "drop_bit 3 ((ucast (b :: byte) :: 32 word) AND 56) = ucast (drop_bit 3 b AND 7)"
  unfolding seven_mask o070_mask by (rule bit_word_eqI) (auto simp add: bit_simps)

lemma oct0: "((ucast (b :: byte) :: 32 word) AND 7) = ucast (b AND 7)"
  unfolding seven_mask by (rule bit_word_eqI) (auto simp add: bit_simps)

lemma ucast_48_plus: "(ucast (48 + (ucast (x :: byte) :: 32 word)) :: byte) = 48 + x"
  apply transfer
  apply (simp add: take_bit_eq_mod)
  apply (metis mod_add_right_eq)
  done

lemma oct6': "(drop_bit 6 (ucast (b :: byte) :: 32 word) AND 7) = ucast (drop_bit 6 b AND 7)"
  unfolding seven_mask by (rule bit_word_eqI) (auto simp add: bit_simps)

lemma oct3': "(drop_bit 3 (ucast (b :: byte) :: 32 word) AND 7) = ucast (drop_bit 3 b AND 7)"
  unfolding seven_mask by (rule bit_word_eqI) (auto simp add: bit_simps)

lemma octalEscape_spec: "octalEscape b = octalSpec b"
  by (simp add: octalEscape_def octalSpec_def oct6 oct3 oct6' oct3' oct0 ucast_48_plus)

lemma size_add_nowrap: "0 \<le> b \<Longrightarrow> int a + b < 2 ^ 64 \<Longrightarrow> size_add a b = a + nat b"
  by (simp add: size_add_def nat_add_distrib)

lemma expandLoop_done:
  "expandLoop bytes bo region text (length text) (length text) out sz = Some out"
  by (subst expandLoop.simps) simp

lemma expandLoop_plain:
  "\<not> (a = 92 \<and> is_digit d) \<Longrightarrow>
   expandLoop bytes bo region (pre @ a # d # rest) (length (pre @ a # d # rest)) (length pre) out sz =
   expandLoop bytes bo region (pre @ a # d # rest) (length (pre @ a # d # rest)) (Suc (length pre))
     (out @ [a]) sz"
  by (subst expandLoop.simps) (auto simp add: nth_append is_digit_def)

lemma expandLoop_last:
  "expandLoop bytes bo region (pre @ [a]) (length (pre @ [a])) (length pre) out sz =
   expandLoop bytes bo region (pre @ [a]) (length (pre @ [a])) (Suc (length pre)) (out @ [a]) sz"
  by (subst expandLoop.simps) (simp add: nth_append)

lemma expandLoop_bad:
  "a = 92 \<and> is_digit d \<Longrightarrow> captured bytes bo region (unat d - 48) = None \<Longrightarrow>
   expandLoop bytes bo region (pre @ a # d # rest) (length (pre @ a # d # rest)) (length pre) out sz = None"
  by (subst expandLoop.simps)
     (auto simp add: nth_append is_digit_def captured_def Let_def split: if_splits)

lemma expandLoop_group:
  assumes "a = 92 \<and> is_digit d"
    and "captured bytes bo region (unat d - 48) = Some cap"
    and "int bo + region_end region (unat d - 48) < 2 ^ 64"
  shows "expandLoop bytes bo region (pre @ a # d # rest) (length (pre @ a # d # rest)) (length pre) out sz =
     (case growSize
             ((length out + 4 * size_sub (bo + nat (region_end region (unat d - 48)))
                                    (bo + nat (region_beg region (unat d - 48))) +
               length (pre @ a # d # rest) - (length pre + 1)) mod 2 ^ 64) sz of
        None \<Rightarrow> None
      | Some sz2 \<Rightarrow>
          expandLoop bytes bo region (pre @ a # d # rest) (length (pre @ a # d # rest))
            (length pre + 2) (out @ concat (map octalSpec cap)) sz2)"
proof -
  let ?w = "unat d - 48"
  from assms(2) have ok: "?w < length region" "0 \<le> region_beg region ?w"
      "region_beg region ?w \<le> region_end region ?w"
    and cap: "cap = map (\<lambda>j. bytes ! j) [bo + nat (region_beg region ?w) ..< bo + nat (region_end region ?w)]"
    by (auto simp add: captured_def split: if_splits)
  have e: "size_add bo (region_end region ?w) = bo + nat (region_end region ?w)"
    using ok assms(3) by (intro size_add_nowrap) auto
  have b: "size_add bo (region_beg region ?w) = bo + nat (region_beg region ?w)"
    using ok assms(3) by (intro size_add_nowrap) auto
  have oct: "concat (map (\<lambda>j. octalEscape (bytes ! j))
               [bo + nat (region_beg region ?w) ..< bo + nat (region_end region ?w)]) =
             concat (map octalSpec cap)"
    by (simp add: cap octalEscape_spec comp_def)
  show ?thesis
    using assms(1) ok
    by (subst expandLoop.simps)
       (simp add: nth_append is_digit_def Let_def e b oct cong: option.case_cong)
qed


lemma size_sub_nowrap: "b \<le> a \<Longrightarrow> a < 2 ^ 64 \<Longrightarrow> size_sub a b = a - b"
proof -
  assume le: "b \<le> a" and lt: "a < 2 ^ 64"
  have 1: "int a - int b = int (a - b)" using le by simp
  have "a - b < 2 ^ 64" using lt by (rule less_imp_diff_less)
  then have 2: "int (a - b) < 2 ^ 64" by (metis of_nat_less_iff of_nat_numeral of_nat_power)
  have 3: "int (a - b) mod 2 ^ 64 = int (a - b)" using 2 by (intro mod_pos_pos_trivial) simp_all
  show ?thesis unfolding size_sub_def 1 3 by simp
qed

lemma growSize_stop: "\<not> reserved > sz \<Longrightarrow> growSize reserved sz = Some sz"
  by (subst growSize.simps) simp
lemma growSize_double: "reserved > sz \<Longrightarrow> sz \<le> SIZE_MAX div 2 \<Longrightarrow>
   growSize reserved sz = growSize reserved (sz * 2)"
proof -
  assume a: "reserved > sz" and b: "sz \<le> SIZE_MAX div 2"
  have "sz * 2 < 2 ^ 64" using b by (simp add: SIZE_MAX_def)
  then have m: "(sz * 2) mod 2 ^ 64 = sz * 2" by (rule mod_less)
  show ?thesis using a b m by (subst growSize.simps) simp
qed
lemma growSize_total:
  "0 < sz \<Longrightarrow> reserved \<le> SIZE_MAX div 2 \<Longrightarrow> \<exists>sz2. growSize reserved sz = Some sz2 \<and> 0 < sz2"
proof (induction "reserved - sz" arbitrary: sz rule: less_induct)
  case less
  show ?case
  proof (cases "reserved > sz")
    case False
    then show ?thesis using less.prems(1) by (simp add: growSize_stop)
  next
    case True
    with less.prems have small: "sz \<le> SIZE_MAX div 2" by simp
    have d: "reserved - sz * 2 < reserved - sz" using True less.prems(1) by simp
    have p: "0 < sz * 2" using less.prems(1) by simp
    from less.hyps [OF d p less.prems(2)]
    obtain sz2 where "growSize reserved (sz * 2) = Some sz2 \<and> 0 < sz2" by blast
    then show ?thesis by (simp add: growSize_double [OF True small])
  qed
qed
lemma reserve_bound: "(lo::nat) \<le> lp * (4 * C + 1) \<Longrightarrow> lc \<le> C \<Longrightarrow>
   lo + 4 * lc + (lp + lr + 2) - (lp + 1) \<le> (lp + lr + 2) * (4 * C + 1)"
proof -
  assume a: "lo \<le> lp * (4 * C + 1)" and b: "lc \<le> C"
  have "lo + 4 * lc + (lp + lr + 2) - (lp + 1) = lo + 4 * lc + lr + 1" by simp
  also have "\<dots> \<le> lp * (4 * C + 1) + 4 * C + lr + 1" using a b by simp
  also have "\<dots> \<le> lp * (4 * C + 1) + lr * (4 * C + 1) + 2 * (4 * C + 1)" by simp
  also have "\<dots> = (lp + lr + 2) * (4 * C + 1)" by (simp only: add_mult_distrib)
  finally show ?thesis .
qed
lemma group_bound: "(lo::nat) \<le> lp * (4 * C + 1) \<Longrightarrow> lc \<le> C \<Longrightarrow> lo + 4 * lc \<le> (lp + 2) * (4 * C + 1)"
proof -
  assume a: "lo \<le> lp * (4 * C + 1)" and b: "lc \<le> C"
  have "lo + 4 * lc \<le> lp * (4 * C + 1) + 2 * (4 * C + 1)" using a b by simp
  also have "\<dots> = (lp + 2) * (4 * C + 1)" by (simp only: add_mult_distrib)
  finally show ?thesis .
qed
lemma plain_bound: "(lo::nat) \<le> lp * (4 * C + 1) \<Longrightarrow> lo + 1 \<le> (lp + 1) * (4 * C + 1)"
proof -
  assume a: "lo \<le> lp * (4 * C + 1)"
  have "lo + 1 \<le> lp * (4 * C + 1) + 1 * (4 * C + 1)" using a by simp
  also have "\<dots> = (lp + 1) * (4 * C + 1)" by (simp only: add_mult_distrib)
  finally show ?thesis .
qed

lemma length_octal: "length (concat (map octalSpec cap)) = 4 * length cap"
  by (induction cap) (simp_all add: octalSpec_def)

lemma expandLoop_expansion:
  assumes nowrap: "\<forall>d<length region. int bo + region_end region d < 2 ^ 64"
    and cbound: "\<forall>d<length region. region_end region d \<le> int C"
  shows "length (pre @ xs) * (4 * C + 1) \<le> SIZE_MAX div 2 \<Longrightarrow>
     length out \<le> length pre * (4 * C + 1) \<Longrightarrow> (2 \<le> length xs \<longrightarrow> 0 < sz) \<Longrightarrow>
     expandLoop bytes bo region (pre @ xs) (length (pre @ xs)) (length pre) out sz =
       map_option (\<lambda>t. out @ t) (expansion bytes bo region xs)"
  using assms
proof (induction bytes bo region xs arbitrary: pre out sz rule: expansion.induct)
  case (3 bytes bo region a d rest)
  let ?w = "unat d - 48"
  let ?text = "pre @ a # d # rest"
  have sz: "0 < sz" using "3.prems"(3) by simp
  have len: "length ?text = length pre + length rest + 2" by simp
  show ?case
  proof (cases "a = 92 \<and> is_digit d")
    case False
    have ex: "expansion bytes bo region (a # d # rest) =
        map_option (\<lambda>t. a # t) (expansion bytes bo region (d # rest))"
      using False by auto
    have "expandLoop bytes bo region ?text (length ?text) (length pre) out sz =
          expandLoop bytes bo region ((pre @ [a]) @ d # rest) (length ((pre @ [a]) @ d # rest))
            (length (pre @ [a])) (out @ [a]) sz"
      using expandLoop_plain [OF False] by simp
    also have "\<dots> = map_option (\<lambda>t. (out @ [a]) @ t) (expansion bytes bo region (d # rest))"
    proof (rule "3.IH"(2) [OF False])
      show "length ((pre @ [a]) @ d # rest) * (4 * C + 1) \<le> SIZE_MAX div 2"
        using "3.prems"(1) by simp
      show "length (out @ [a]) \<le> length (pre @ [a]) * (4 * C + 1)"
        using plain_bound [OF "3.prems"(2)] by simp
      show "2 \<le> length (d # rest) \<longrightarrow> 0 < sz" using sz by simp
    qed (rule "3.prems"(4), rule "3.prems"(5))
    also have "\<dots> = map_option (\<lambda>t. out @ t) (expansion bytes bo region (a # d # rest))"
      unfolding ex by (simp add: option.map_comp comp_def)
    finally show ?thesis .
  next
    case True
    show ?thesis
    proof (cases "captured bytes bo region ?w")
      case None
      have "expansion bytes bo region (a # d # rest) = None" using True None by simp
      then show ?thesis using expandLoop_bad [OF True None] by simp
    next
      case (Some cap)
      have ex: "expansion bytes bo region (a # d # rest) =
          map_option (\<lambda>t. concat (map octalSpec cap) @ t) (expansion bytes bo region rest)"
        using True Some by simp
      from Some have ok: "?w < length region" "0 \<le> region_beg region ?w"
          "region_beg region ?w \<le> region_end region ?w"
        and cap: "cap = map (\<lambda>j. bytes ! j)
                   [bo + nat (region_beg region ?w) ..< bo + nat (region_end region ?w)]"
        by (auto simp add: captured_def split: if_splits)
      have nw: "int bo + region_end region ?w < 2 ^ 64" using "3.prems"(4) ok(1) by simp
      have cb: "nat (region_end region ?w) \<le> C" using "3.prems"(5) ok(1) by (simp add: nat_le_iff)
      have lcap2: "length cap = nat (region_end region ?w) - nat (region_beg region ?w)"
        by (simp add: cap)
      have lcap: "length cap \<le> C" using cb lcap2 by linarith
      have top: "bo + nat (region_end region ?w) < 2 ^ 64"
        using nw ok by (simp add: nat_less_iff)
      have mono: "bo + nat (region_beg region ?w) \<le> bo + nat (region_end region ?w)"
        using ok by simp
      have ss: "size_sub (bo + nat (region_end region ?w)) (bo + nat (region_beg region ?w)) =
          length cap"
        unfolding size_sub_nowrap [OF mono top] lcap2 by simp
      let ?reserved = "(length out + 4 * length cap + length ?text - (length pre + 1)) mod 2 ^ 64"
      have "length out + 4 * length cap + length ?text - (length pre + 1) \<le>
            length ?text * (4 * C + 1)"
        unfolding len by (rule reserve_bound [OF "3.prems"(2) lcap])
      then have "length out + 4 * length cap + length ?text - (length pre + 1) \<le>
                    SIZE_MAX div 2"
        using "3.prems"(1) by (rule le_trans)
      then have res: "?reserved \<le> SIZE_MAX div 2"
        by (meson le_trans mod_less_eq_dividend)
      from growSize_total [OF sz res] obtain sz2 where
        g: "growSize ?reserved sz = Some sz2" and sz2: "0 < sz2" by blast
      have "expandLoop bytes bo region ?text (length ?text) (length pre) out sz =
            expandLoop bytes bo region ?text (length ?text)
              (length pre + 2) (out @ concat (map octalSpec cap)) sz2"
        unfolding expandLoop_group [OF True Some nw, of pre rest out sz] ss g by simp
      also have "\<dots> = expandLoop bytes bo region ((pre @ [a, d]) @ rest) (length ((pre @ [a, d]) @ rest))
              (length (pre @ [a, d])) (out @ concat (map octalSpec cap)) sz2"
        by simp
      also have "\<dots> = map_option (\<lambda>t. (out @ concat (map octalSpec cap)) @ t)
                         (expansion bytes bo region rest)"
      proof (rule "3.IH"(1) [OF True Some])
        show "length ((pre @ [a, d]) @ rest) * (4 * C + 1) \<le> SIZE_MAX div 2"
          using "3.prems"(1) by simp
        show "length (out @ concat (map octalSpec cap)) \<le> length (pre @ [a, d]) * (4 * C + 1)"
          using group_bound [OF "3.prems"(2) lcap] by (simp add: length_octal)
        show "2 \<le> length rest \<longrightarrow> 0 < sz2" using sz2 by simp
      qed (rule "3.prems"(4), rule "3.prems"(5))
      also have "\<dots> = map_option (\<lambda>t. out @ t) (expansion bytes bo region (a # d # rest))"
        unfolding ex by (simp add: option.map_comp comp_def)
      finally show ?thesis .
    qed
  qed
next
  case (1 bytes bo region)
  show ?case using expandLoop_done [of bytes bo region pre out sz] by simp
next
  case (2 bytes bo region v)
  have "expandLoop bytes bo region (pre @ [v]) (length (pre @ [v])) (length pre) out sz =
        expandLoop bytes bo region (pre @ [v]) (length (pre @ [v])) (length (pre @ [v])) (out @ [v]) sz"
    using expandLoop_last [of bytes bo region pre v out sz] by simp
  also have "\<dots> = Some (out @ [v])" by (rule expandLoop_done)
  finally show ?case by simp
qed


lemma references_bad:
  "d \<in> set (references source) \<Longrightarrow> captured bytes bo region d = None \<Longrightarrow>
   expansion bytes bo region source = None"
  by (induction bytes bo region source rule: expansion.induct)
     (auto split: option.splits if_splits)

lemma backreferencingSearch_uncached:
  assumes "p_backreferencingPattern p" and "p_text p = Some source" and "p_len p = length source"
    and "a_beginRegion a = Some region"
    and "\<forall>d<length region. int (a_beginOffset a) + region_end region d < 2 ^ 64"
    and "\<forall>d<length region. region_end region d \<le> int C"
    and "length source * (4 * C + 1) \<le> SIZE_MAX div 2"
  shows "backreferencingSearch lib bytes a None p subject pos rng opt =
     (case expansion bytes (a_beginOffset a) region source of
        None \<Rightarrow> (None, None)
      | Some replaced \<Rightarrow>
          (case onig_new lib replaced of
             None \<Rightarrow> (None, None)
           | Some n \<Rightarrow> (onig_search lib replaced subject pos rng opt, Some replaced)))"
proof -
  have small: "\<not> length source > SIZE_MAX div 2"
  proof -
    have "length source \<le> length source * (4 * C + 1)" by simp
    with assms(7) show ?thesis by simp
  qed
  have "expandLoop bytes (a_beginOffset a) region ([] @ source) (length ([] @ source)) (length ([] :: byte list))
          [] (length source * 2) =
        map_option (\<lambda>t. [] @ t) (expansion bytes (a_beginOffset a) region source)"
    by (rule expandLoop_expansion [OF assms(5,6)]) (use assms(7) in auto)
  then have ex: "expandLoop bytes (a_beginOffset a) region source (length source) 0 [] (length source * 2) =
      expansion bytes (a_beginOffset a) region source"
    by (simp add: option.map_ident)
  show ?thesis
    using assms(1-4) small by (simp add: backreferencingSearch_def ex)
qed

text \<open>
  For a backreferencing pattern in a frame that holds the region of its begin match
  and has no compiled regex yet, the search runs on the expansion of the retained
  source: every backslash-digit pair is replaced by the bytes of that capture group,
  four bytes \<open>\\<close>, \<open>'0' + (b >> 6 & 7)\<close>, \<open>'0' + (b >> 3 & 7)\<close>, \<open>'0' + (b & 7)\<close> for
  each captured byte \<open>b\<close>, and every other byte is kept; the expansion is compiled,
  searched and cached in the frame. With a cached regex the search runs on that. When
  a group the source refers to did not take part in the begin match, or its indices
  are inconsistent, there is no expansion and the result is no match. The bounds say
  that offsets and buffer sizes fit in \<open>size_t\<close>: \<open>C\<close> bounds the end of every group.
\<close>

lemma backreferencingSearch_expands:
  assumes "p_backreferencingPattern p" and "p_text p = Some source" and "p_len p = length source"
    and "a_beginRegion a = Some region"
    and "\<forall>d<length region. int (a_beginOffset a) + region_end region d < 2 ^ 64"
    and "\<forall>d<length region. region_end region d \<le> int C"
    and "length source * (4 * C + 1) \<le> SIZE_MAX div 2"
  shows "backreferencingSearch lib bytes a None p subject pos rng opt =
     (case expansion bytes (a_beginOffset a) region source of
        None \<Rightarrow> (None, None)
      | Some replaced \<Rightarrow>
          (case onig_new lib replaced of
             None \<Rightarrow> (None, None)
           | Some n \<Rightarrow> (onig_search lib replaced subject pos rng opt, Some replaced))) \<and>
     backreferencingSearch lib bytes a (Some rx) p subject pos rng opt =
       (onig_search lib rx subject pos rng opt, Some rx) \<and>
     (\<forall>d\<in>set (references source).
        captured bytes (a_beginOffset a) region d = None \<longrightarrow>
        fst (backreferencingSearch lib bytes a None p subject pos rng opt) = None)"
proof (intro conjI ballI impI)
  show "backreferencingSearch lib bytes a None p subject pos rng opt =
     (case expansion bytes (a_beginOffset a) region source of
        None \<Rightarrow> (None, None)
      | Some replaced \<Rightarrow>
          (case onig_new lib replaced of
             None \<Rightarrow> (None, None)
           | Some n \<Rightarrow> (onig_search lib replaced subject pos rng opt, Some replaced)))"
    by (rule backreferencingSearch_uncached [OF assms])
  show "backreferencingSearch lib bytes a (Some rx) p subject pos rng opt =
       (onig_search lib rx subject pos rng opt, Some rx)"
    using assms(1) by (simp add: backreferencingSearch_def)
  fix d assume "d \<in> set (references source)" "captured bytes (a_beginOffset a) region d = None"
  then have "expansion bytes (a_beginOffset a) region source = None" by (rule references_bad)
  then show "fst (backreferencingSearch lib bytes a None p subject pos rng opt) = None"
    by (simp add: backreferencingSearch_uncached [OF assms])
qed

lemma backreferencingSearch_expands_example:
  "backreferencingSearch oct_lib [97, 98] (zeroFrame\<lparr> a_beginRegion := Some [(0, 1)] \<rparr>) None
     (the (createBackreferencingPattern oct_lib [92, 48, 98])) [97, 98] 0 2 False =
     (Some [(0, 2)], Some [92, 49, 52, 49, 98])"
  using backreferencingSearch_expands [where p = "the (createBackreferencingPattern oct_lib [92, 48, 98])"
      and source = "[92, 48, 98]" and a = "zeroFrame\<lparr> a_beginRegion := Some [(0, 1)] \<rparr>"
      and region = "[(0, 1)]" and C = 1 and lib = oct_lib and bytes = "[97, 98]"
      and subject = "[97, 98]" and pos = 0 and rng = 2 and opt = False and rx = "[]"]
  by (simp add: createBackreferencingPattern_def takeOutBackreferences_eq is_digit_def
      createPattern_def oct_lib_def lit_lib_def zeroFrame_def region_end_def region_beg_def
      SIZE_MAX_def captured_def octalSpec_def lit_search_def lit_at_def upt_rec)

text \<open>
  The frame a \<open>BEGIN\<close> rule pushes holds the region of the begin match only when the
  end pattern of the target state is backreferencing. In every other frame the first
  search for a backreferencing pattern, whether end or while pattern, fails before any
  expansion is made.
\<close>

lemma beginFrame_without_region:
  assumes "p_backreferencingPattern p"
    and "s_endPattern (g_state g to) = None \<or>
         (\<exists>e. s_endPattern (g_state g to) = Some e \<and> \<not> p_backreferencingPattern (g_pattern g e))"
  shows "backreferencingSearch lib bytes (beginFrame g r ln q to region) None p subject pos rng opt =
     (None, None)"
  using assms by (auto simp add: backreferencingSearch_def beginFrame_def)

text \<open>
  C4. The claim: the search for a backreferencing end or while pattern runs on the
  expansion of its source by the captures of the begin match. For a while pattern this
  fails when the end pattern of the state is not backreferencing too. In
  \<open>whileRefGrammar\<close> on the input \<open>x\nyx\n\<close>, line 1 opens state 1 on \<open>x\<close>, and the frame
  pushed holds no begin region. The while pattern \<open>\0\<close> of state 1 is backreferencing;
  its expansion by the begin match is \<open>\170\<close>, which is found on line 2 at offset 1, so
  the frame should stay open there. The code's search fails instead: on line 2 the
  frame is popped and the rule \<open>yx\<close> of the start state is applied (scope 9).
\<close>

theorem while_backreference_not_expanded:
  "p_backreferencingPattern (g_pattern whileRefGrammar 1) \<and>
   s_whilePattern (g_state whileRefGrammar 1) = Some 1 \<and>
   map_option (map_option view)
     (renderNextLine 9 oct_lib whileRefGrammar (start [120, 10, 121, 120, 10])) =
     Some (Some (2, [(1, 0, SCOPE_BEGIN), (1, 1, SCOPE_END)])) \<and>
   map a_beginRegion
     (r_stack (rs_r (the (the (renderNextLine 9 oct_lib whileRefGrammar
        (start [120, 10, 121, 120, 10])))))) = [None, None] \<and>
   expansion [120, 10, 121, 120, 10] 0 [(0, 1)] [92, 48] = Some [92, 49, 55, 48] \<and>
   onig_search oct_lib [92, 49, 55, 48] [121, 120, 10] 0 2 True = Some [(1, 2)] \<and>
   map_option (map_option view)
     (renderNextLine 9 oct_lib whileRefGrammar
        (the (the (renderNextLine 9 oct_lib whileRefGrammar (start [120, 10, 121, 120, 10]))))) =
     Some (Some (1, [(9, 2, SCOPE_BEGIN), (9, 4, SCOPE_END)]))"
  by (simp add: render_unfold render_0 model_defs lit_defs whileRefGrammar_def oct_lib_def
      createBackreferencingPattern_def takeOutBackreferences_eq is_digit_def captured_def
      octalSpec_def view_def Let_def upt_rec)

subsection \<open>A search position before the subject\<close>

text \<open>
  The dispatch loop reads the region of the winning rule again after
  \<open>renderCaptures\<close>. When a nested call has searched the same regset in between and
  found nothing, the region is cleared, \<open>end[0]\<close> is \<open>-1\<close>, and the next search
  starts one byte before the line: the library reports no match and the line ends. On
  the input \<open>abyx\<close> with \<open>clearGrammar\<close> the rule \<open>x\<close> is never applied (no scope 9),
  while on \<open>yx\<close> it is.
\<close>

lemma cleared_region_ends_line:
  "map_option (map_option view) (renderNextLine 20 lit_lib clearGrammar (start [97, 98, 121, 120])) =
     Some (Some (1, [(7, 0, SCOPE_BEGIN), (4, 0, SCOPE_BEGIN), (4, 1, SCOPE_END),
                     (7, 2, SCOPE_END)])) \<and>
   map_option (map_option view) (renderNextLine 20 lit_lib clearGrammar (start [121, 120])) =
     Some (Some (1, [(9, 1, SCOPE_BEGIN), (9, 2, SCOPE_END)]))"
  by (simp add: render_unfold render_0 model_defs lit_defs clearGrammar_def setCaptureState_def
      view_def Let_def upt_rec)

subsection \<open>Termination of rendering\<close>










































lemma createRenderer_wfStack: "wfStack 1 (r_stack (createRenderer bytes s))"
  by (simp add: wfStack_def createRenderer_def STACK_SIZE_def)






end
